theory Spec2Isabelle
  imports Main "HOL-Library.Word"
begin


section \<open>The ScoreGraph component: data\<close>

text \<open>
  The component keeps four pieces of React state and one ref:
  \<^verbatim>\<open>players\<close>, \<^verbatim>\<open>firstPlayerTime\<close>, \<^verbatim>\<open>elapsedTime\<close>, \<^verbatim>\<open>nextPlayerId\<close> and
  \<^verbatim>\<open>startTimeRef.current\<close>. Every handler runs to completion on the value of
  the state of the render it was created in, and its functional updates are applied in the
  order they were queued; the model therefore passes one state record through each handler.

  Numbers are modelled as \<open>int\<close>: ids, scores and clock readings (milliseconds, as
  \<^verbatim>\<open>Date.now()\<close> returns them) are integers far inside the range in which JavaScript
  numbers are exact. A data point \<^verbatim>\<open>[x, y]\<close> is a pair.

  A JavaScript string is a sequence of 16-bit code units, whatever they are: the name that
  \<^verbatim>\<open>prompt\<close> returns can hold any of them, unpaired surrogates included. \<open>cu\<close> is
  the code unit of a character of a literal of this file, and \<open>js\<close> the string of such a
  literal.
\<close>

type_synonym codeUnit = "16 word"

type_synonym jsString = "codeUnit list"

definition cu :: "char \<Rightarrow> codeUnit" where
  "cu c = of_nat (of_char c)"

definition js :: "string \<Rightarrow> jsString" where
  "js s = map cu s"

type_synonym dataPoint = "int \<times> int"

record player =
  id_p :: int
  name :: jsString
  color :: jsString
  dataPoints :: "dataPoint list"
  yValue :: int

record state =
  players :: "player list"
  firstPlayerTime :: "int option"
  elapsedTime :: int
  nextPlayerId :: int
  startTime :: int

text \<open>The state of the first render; \<open>t0\<close> is the reading of the clock at mount.\<close>

definition initial :: "int \<Rightarrow> state" where
  "initial t0 =
     \<lparr>players = [], firstPlayerTime = None, elapsedTime = 0, nextPlayerId = 1,
      startTime = t0\<rparr>"

section \<open>The handlers\<close>

text \<open>\<^verbatim>\<open>Math.floor((Date.now() - startTimeRef.current) / 1000)\<close>; \<open>div\<close> on \<open>int\<close>
  rounds towards minus infinity, as \<^verbatim>\<open>Math.floor\<close> does.\<close>

definition currentElapsedTime :: "int \<Rightarrow> state \<Rightarrow> int" where
  "currentElapsedTime now s = (now - startTime s) div 1000"

text \<open>\<^verbatim>\<open>n.toString(16)\<close> for a non-negative integer.\<close>

definition hexDigit :: "nat \<Rightarrow> char" where
  "hexDigit d = ''0123456789abcdef'' ! d"

fun toString16 :: "nat \<Rightarrow> string" where
  "toString16 n =
     (if n < 16 then [hexDigit n] else toString16 (n div 16) @ [hexDigit (n mod 16)])"

declare toString16.simps [simp del]

text \<open>The \<^verbatim>\<open>if (playerName)\<close> test: \<^verbatim>\<open>prompt\<close> returns \<^verbatim>\<open>null\<close> when the user
  cancels and the text otherwise; \<^verbatim>\<open>null\<close> and the empty string are falsy.\<close>

fun truthy :: "jsString option \<Rightarrow> bool" where
  "truthy None = False"
| "truthy (Some n) = (n \<noteq> [])"

text \<open>
  \<open>addPlayer\<close>: \<open>playerName\<close> is what \<^verbatim>\<open>prompt\<close> returned, \<open>now\<close> the reading of
  \<^verbatim>\<open>Date.now()\<close> and \<open>rnd\<close> the value of \<^verbatim>\<open>Math.floor(Math.random() * 16777215)\<close>;
  the last two are only read when the name is truthy. The handler reads
  \<^verbatim>\<open>firstPlayerTime\<close> and \<^verbatim>\<open>nextPlayerId\<close> of the current render.
\<close>

definition addPlayer :: "jsString option \<Rightarrow> int \<Rightarrow> nat \<Rightarrow> state \<Rightarrow> state" where
  "addPlayer playerName now rnd s =
     (case playerName of
        None \<Rightarrow> s
      | Some n \<Rightarrow>
          if n = [] then s
          else
            s\<lparr>firstPlayerTime :=
                 (if firstPlayerTime s = None then Some (currentElapsedTime now s)
                  else firstPlayerTime s),
              players := players s @
                 [\<lparr>id_p = nextPlayerId s,
                   name = n,
                   color = js (CHR ''#'' # toString16 rnd),
                   dataPoints = [(currentElapsedTime now s, 0)],
                   yValue = 0\<rparr>],
              nextPlayerId := nextPlayerId s + 1\<rparr>)"

definition removePlayer :: "int \<Rightarrow> state \<Rightarrow> state" where
  "removePlayer i s = s\<lparr>players := filter (\<lambda>p. id_p p \<noteq> i) (players s)\<rparr>"

definition updateAllPlayersWithTime :: "int \<Rightarrow> state \<Rightarrow> state" where
  "updateAllPlayersWithTime now s =
     s\<lparr>players :=
         map (\<lambda>p. p\<lparr>dataPoints := dataPoints p @ [(currentElapsedTime now s, yValue p)]\<rparr>)
           (players s),
       elapsedTime := currentElapsedTime now s\<rparr>"

definition incrementPlayer :: "int \<Rightarrow> int \<Rightarrow> state \<Rightarrow> state" where
  "incrementPlayer i now s =
     updateAllPlayersWithTime now
       (s\<lparr>players :=
            map (\<lambda>p. if id_p p = i then p\<lparr>yValue := yValue p + 1\<rparr> else p) (players s)\<rparr>)"

definition decrementPlayer :: "int \<Rightarrow> int \<Rightarrow> state \<Rightarrow> state" where
  "decrementPlayer i now s =
     updateAllPlayersWithTime now
       (s\<lparr>players :=
            map (\<lambda>p. if id_p p = i then p\<lparr>yValue := yValue p - 1\<rparr> else p) (players s)\<rparr>)"

definition changePlayerColor :: "int \<Rightarrow> jsString \<Rightarrow> state \<Rightarrow> state" where
  "changePlayerColor i newColor s =
     s\<lparr>players := map (\<lambda>p. if id_p p = i then p\<lparr>color := newColor\<rparr> else p) (players s)\<rparr>"

definition resetAllPlayers :: "int \<Rightarrow> state \<Rightarrow> state" where
  "resetAllPlayers now s =
     s\<lparr>players :=
         map (\<lambda>p. p\<lparr>yValue := 0,
                    dataPoints :=
                      [(case firstPlayerTime s of Some t \<Rightarrow> t | None \<Rightarrow> 0, 0)]\<rparr>)
           (players s),
       startTime := now,
       elapsedTime := 0,
       firstPlayerTime := None\<rparr>"

text \<open>
  The interval callback. It calls \<^verbatim>\<open>updateAllPlayersWithTime()\<close>, which reads the clock
  (\<open>now1\<close>), and then reads the clock again (\<open>now2\<close>) for its own
  \<^verbatim>\<open>setElapsedTime\<close>; the later of the two queued values of \<^verbatim>\<open>elapsedTime\<close> is the
  one that is kept.
\<close>

definition tick :: "int \<Rightarrow> int \<Rightarrow> state \<Rightarrow> state" where
  "tick now1 now2 s =
     (updateAllPlayersWithTime now1 s)\<lparr>elapsedTime := currentElapsedTime now2 s\<rparr>"

section \<open>Events\<close>

text \<open>
  What can happen to a mounted component: a click on one of the buttons, a change of a
  colour input, or the timer. Each event carries what its handler reads from the
  environment (the answer to the prompt, the clock, the random number).
\<close>

datatype event =
    AddPlayer "jsString option" int nat
  | RemovePlayer int
  | IncrementPlayer int int
  | DecrementPlayer int int
  | ChangePlayerColor int jsString
  | ResetAllPlayers int
  | Tick int int
  | ExportToJson

text \<open>\<^verbatim>\<open>exportToJson\<close> calls no setter and writes to no ref: the state stays as it is.\<close>

fun step :: "event \<Rightarrow> state \<Rightarrow> state" where
  "step (AddPlayer playerName now rnd) s = addPlayer playerName now rnd s"
| "step (RemovePlayer i) s = removePlayer i s"
| "step (IncrementPlayer i now) s = incrementPlayer i now s"
| "step (DecrementPlayer i now) s = decrementPlayer i now s"
| "step (ChangePlayerColor i c) s = changePlayerColor i c s"
| "step (ResetAllPlayers now) s = resetAllPlayers now s"
| "step (Tick now1 now2) s = tick now1 now2 s"
| "step ExportToJson s = s"

fun run :: "state \<Rightarrow> event list \<Rightarrow> state" where
  "run s [] = s"
| "run s (e # es) = run (step e s) es"

text \<open>The id given to the player an event creates, if it creates one: read off the
  player that \<open>addPlayer\<close> appended.\<close>

fun assignedId :: "event \<Rightarrow> state \<Rightarrow> int option" where
  "assignedId (AddPlayer playerName now rnd) s =
     (if truthy playerName then Some (id_p (last (players (addPlayer playerName now rnd s))))
      else None)"
| "assignedId _ s = None"

fun assignedIds :: "state \<Rightarrow> event list \<Rightarrow> int list" where
  "assignedIds s [] = []"
| "assignedIds s (e # es) =
     (case assignedId e s of None \<Rightarrow> [] | Some i \<Rightarrow> [i]) @ assignedIds (step e s) es"

text \<open>The readings of \<^verbatim>\<open>Date.now()\<close> a handler makes, in the order it makes them.\<close>

fun clockReadings :: "event \<Rightarrow> int list" where
  "clockReadings (AddPlayer playerName now rnd) = (if truthy playerName then [now] else [])"
| "clockReadings (RemovePlayer i) = []"
| "clockReadings (IncrementPlayer i now) = [now]"
| "clockReadings (DecrementPlayer i now) = [now]"
| "clockReadings (ChangePlayerColor i c) = []"
| "clockReadings (ResetAllPlayers now) = [now]"
| "clockReadings (Tick now1 now2) = [now1, now2]"
| "clockReadings ExportToJson = []"

text \<open>A clock that never runs backwards: \<open>t\<close> is the latest reading so far.\<close>

fun clockOk :: "int \<Rightarrow> event list \<Rightarrow> bool" where
  "clockOk t [] = True"
| "clockOk t (e # es) =
     (sorted (t # clockReadings e) \<and> clockOk (last (t # clockReadings e)) es)"

fun isReset :: "event \<Rightarrow> bool" where
  "isReset (ResetAllPlayers now) = True"
| "isReset _ = False"

fun successfulAdd :: "event \<Rightarrow> bool" where
  "successfulAdd (AddPlayer playerName now rnd) = truthy playerName"
| "successfulAdd _ = False"

text \<open>The latest reading of the clock after a list of events.\<close>

fun clockAfter :: "int \<Rightarrow> event list \<Rightarrow> int" where
  "clockAfter t [] = t"
| "clockAfter t (e # es) = clockAfter (last (t # clockReadings e)) es"

text \<open>The session of section 8 of the specification: Alice joins at second 0 and scores at
  second 5, Bob joins at second 5 and loses a point at second 8.\<close>

definition scenario :: "event list" where
  "scenario =
     [AddPlayer (Some (js ''Alice'')) 0 255, IncrementPlayer 1 5000,
      AddPlayer (Some (js ''Bob'')) 5000 4096, DecrementPlayer 2 8000]"

text \<open>The same session going on: Bob leaves, Carol joins, Alice leaves, a prompt is
  cancelled, Dave joins.\<close>

definition longerSession :: "event list" where
  "longerSession =
     scenario @
     [RemovePlayer 2, AddPlayer (Some (js ''Carol'')) 9000 5, RemovePlayer 1,
      AddPlayer None 9100 0, AddPlayer (Some (js ''Dave'')) 9500 6]"

text \<open>A session with a reset: Alice joins after 100 seconds, the graph is reset after 200
  seconds, and the timer fires two seconds later.\<close>

definition resetSession :: "event list" where
  "resetSession =
     [AddPlayer (Some (js ''Alice'')) 100000 255, ResetAllPlayers 200000,
      Tick 202000 202000]"

text \<open>After that reset: Bob joins at second 5 of the new clock and scores at second 7.\<close>

definition scenario_later :: "event list" where
  "scenario_later = [AddPlayer (Some (js ''Bob'')) 205000 4096, IncrementPlayer 2 207000]"

section \<open>Predicates used in the statements\<close>

text \<open>\<open>appendedAt x s s'\<close>: \<open>s'\<close> has the players of \<open>s\<close>, in the same order, and each
  series is the old one with exactly one more point, whose x-coordinate is \<open>x\<close>.\<close>

definition appendedAt :: "int \<Rightarrow> state \<Rightarrow> state \<Rightarrow> bool" where
  "appendedAt x s s' =
     list_all2 (\<lambda>p p'. id_p p' = id_p p \<and>
                  length (dataPoints p') = length (dataPoints p) + 1 \<and>
                  butlast (dataPoints p') = dataPoints p \<and>
                  fst (last (dataPoints p')) = x)
       (players s) (players s')"

text \<open>\<open>adjustedBy d i x s s'\<close>: the players with id \<open>i\<close> have their score changed by
  \<open>d\<close>, every other score is unchanged, and every series has got the point \<open>(x, new score)\<close>.\<close>

definition adjustedBy :: "int \<Rightarrow> int \<Rightarrow> int \<Rightarrow> state \<Rightarrow> state \<Rightarrow> bool" where
  "adjustedBy d i x s s' =
     list_all2 (\<lambda>p p'. id_p p' = id_p p \<and> name p' = name p \<and> color p' = color p \<and>
                  yValue p' = (if id_p p = i then yValue p + d else yValue p) \<and>
                  dataPoints p' = dataPoints p @ [(x, yValue p')])
       (players s) (players s')"

text \<open>Invariants: the ids in the list are increasing and below \<open>nextPlayerId\<close>; a series
  is non-decreasing (from its second point on, or as a whole) and bounded by \<open>b\<close>.\<close>

definition idsBelow :: "state \<Rightarrow> bool" where
  "idsBelow s = (sorted_wrt (<) (map id_p (players s)) \<and>
                 (\<forall>i \<in> set (map id_p (players s)). i < nextPlayerId s))"

definition tailOk :: "int \<Rightarrow> dataPoint list \<Rightarrow> bool" where
  "tailOk b ps = (ps \<noteq> [] \<and> sorted (map fst (tl ps)) \<and> (\<forall>x \<in> set (map fst (tl ps)). x \<le> b))"

definition fullOk :: "int \<Rightarrow> dataPoint list \<Rightarrow> bool" where
  "fullOk b ps = (sorted (map fst ps) \<and> (\<forall>x \<in> set (map fst ps). x \<le> b))"

definition tailInv :: "int \<Rightarrow> state \<Rightarrow> bool" where
  "tailInv t s = (\<forall>p \<in> set (players s). tailOk (currentElapsedTime t s) (dataPoints p))"

definition fullInv :: "int \<Rightarrow> int \<Rightarrow> state \<Rightarrow> bool" where
  "fullInv n t s =
     (\<forall>p \<in> set (players s). n \<le> id_p p \<longrightarrow> fullOk (currentElapsedTime t s) (dataPoints p))"

section \<open>The export\<close>

text \<open>
  \<^verbatim>\<open>exportToJson\<close> builds an object from \<^verbatim>\<open>elapsedTime\<close> and \<^verbatim>\<open>players\<close> and hands
  \<^verbatim>\<open>JSON.stringify(exportData, null, 2)\<close> to the download. The values that an object
  literal of numbers, strings and arrays can hold, and that JSON text can denote, are the
  type \<open>json\<close>; an object is the list of its properties in the order of their creation.
  Numbers are integers here, as all numbers of the state are.
\<close>

datatype json =
    JNull
  | JBool bool
  | JNumber int
  | JString jsString
  | JArray "json list"
  | JObject "(jsString \<times> json) list"

text \<open>The object made for one player, by the function given to \<^verbatim>\<open>players.map\<close>; a data
  point is an array of two numbers.\<close>

definition exportPoint :: "dataPoint \<Rightarrow> json" where
  "exportPoint pt = JArray [JNumber (fst pt), JNumber (snd pt)]"

definition exportPlayer :: "player \<Rightarrow> json" where
  "exportPlayer p =
     JObject
       [(js ''id'', JNumber (id_p p)),
        (js ''name'', JString (name p)),
        (js ''color'', JString (color p)),
        (js ''dataPoints'', JArray (map exportPoint (dataPoints p)))]"

definition exportData :: "state \<Rightarrow> json" where
  "exportData s =
     JObject
       [(js ''elapsedTime'', JNumber (elapsedTime s)),
        (js ''players'', JArray (map exportPlayer (players s)))]"

subsection \<open>\<^verbatim>\<open>JSON.stringify(value, null, 2)\<close>\<close>

text \<open>
  The platform's serializer, after ECMA-262 (\<^verbatim>\<open>SerializeJSONProperty\<close>,
  \<^verbatim>\<open>SerializeJSONObject\<close>, \<^verbatim>\<open>SerializeJSONArray\<close>, \<^verbatim>\<open>QuoteJSONString\<close>) with the
  gap of two spaces. The text is a JavaScript string as well. An integer is written in
  decimal digits.
\<close>

fun toDigits :: "nat \<Rightarrow> string" where
  "toDigits n =
     (if n < 10 then [char_of (48 + n)] else toDigits (n div 10) @ [char_of (48 + n mod 10)])"

declare toDigits.simps [simp del]

definition numberToString :: "int \<Rightarrow> jsString" where
  "numberToString i =
     js (if i < 0 then CHR ''-'' # toDigits (nat (- i)) else toDigits (nat i))"

text \<open>\<^verbatim>\<open>UnicodeEscape\<close>: a backslash, \<^verbatim>\<open>u\<close> and the four hexadecimal digits of the code
  unit, in lower case.\<close>

definition unicodeEscape :: "codeUnit \<Rightarrow> jsString" where
  "unicodeEscape c =
     js [CHR 0x5C, CHR ''u'', hexDigit (unat c div 4096 mod 16), hexDigit (unat c div 256 mod 16),
         hexDigit (unat c div 16 mod 16), hexDigit (unat c mod 16)]"

definition isLeadingSurrogate :: "codeUnit \<Rightarrow> bool" where
  "isLeadingSurrogate c = (0xD800 \<le> unat c \<and> unat c \<le> 0xDBFF)"

definition isTrailingSurrogate :: "codeUnit \<Rightarrow> bool" where
  "isTrailingSurrogate c = (0xDC00 \<le> unat c \<and> unat c \<le> 0xDFFF)"

text \<open>A code point that is one code unit: the short escapes, a \<^verbatim>\<open>\u\<close> escape for a
  control character and for a surrogate that has no partner, and the unit itself
  otherwise.\<close>

definition quoteChar :: "codeUnit \<Rightarrow> jsString" where
  "quoteChar c =
     (if c = cu (CHR 0x08) then js [CHR 0x5C, CHR ''b'']
      else if c = cu (CHR 0x09) then js [CHR 0x5C, CHR ''t'']
      else if c = cu (CHR 0x0A) then js [CHR 0x5C, CHR ''n'']
      else if c = cu (CHR 0x0C) then js [CHR 0x5C, CHR ''f'']
      else if c = cu (CHR 0x0D) then js [CHR 0x5C, CHR ''r'']
      else if c = cu (CHR 0x22) then js [CHR 0x5C, CHR 0x22]
      else if c = cu (CHR 0x5C) then js [CHR 0x5C, CHR 0x5C]
      else if unat c < 0x20 \<or> isLeadingSurrogate c \<or> isTrailingSurrogate c
      then unicodeEscape c
      else [c])"

text \<open>The code points of a string in order: a leading surrogate followed by a trailing one
  is one code point, written as its two code units.\<close>

fun quoteUnits :: "jsString \<Rightarrow> jsString" where
  "quoteUnits [] = []"
| "quoteUnits [c] = quoteChar c"
| "quoteUnits (c # d # cs) =
     (if isLeadingSurrogate c \<and> isTrailingSurrogate d then c # d # quoteUnits cs
      else quoteChar c @ quoteUnits (d # cs))"

definition QuoteJSONString :: "jsString \<Rightarrow> jsString" where
  "QuoteJSONString s = cu (CHR 0x22) # quoteUnits s @ [cu (CHR 0x22)]"

text \<open>The indent at depth \<open>d\<close>: \<open>d\<close> times the gap.\<close>

definition indentOf :: "nat \<Rightarrow> jsString" where
  "indentOf d = replicate (2 * d) (cu CHR '' '')"

fun SerializeJSONProperty :: "nat \<Rightarrow> json \<Rightarrow> jsString"
  and serializeElements :: "nat \<Rightarrow> json list \<Rightarrow> jsString"
  and serializeMembers :: "nat \<Rightarrow> (jsString \<times> json) list \<Rightarrow> jsString"
where
  "SerializeJSONProperty d JNull = js ''null''"
| "SerializeJSONProperty d (JBool b) = (if b then js ''true'' else js ''false'')"
| "SerializeJSONProperty d (JNumber i) = numberToString i"
| "SerializeJSONProperty d (JString s) = QuoteJSONString s"
| "SerializeJSONProperty d (JArray vs) =
     (if vs = [] then js ''[]''
      else cu CHR ''['' # cu (CHR 0x0A) # indentOf (Suc d) @ serializeElements (Suc d) vs @
           cu (CHR 0x0A) # indentOf d @ js '']'')"
| "SerializeJSONProperty d (JObject ms) =
     (if ms = [] then js ''{}''
      else cu CHR ''{'' # cu (CHR 0x0A) # indentOf (Suc d) @ serializeMembers (Suc d) ms @
           cu (CHR 0x0A) # indentOf d @ js ''}'')"
| "serializeElements d [] = []"
| "serializeElements d [v] = SerializeJSONProperty d v"
| "serializeElements d (v # w # vs) =
     SerializeJSONProperty d v @ cu CHR '','' # cu (CHR 0x0A) # indentOf d @
     serializeElements d (w # vs)"
| "serializeMembers d [] = []"
| "serializeMembers d [(k, v)] = QuoteJSONString k @ js '': '' @ SerializeJSONProperty d v"
| "serializeMembers d ((k, v) # m # ms) =
     QuoteJSONString k @ js '': '' @ SerializeJSONProperty d v @ cu CHR '','' # cu (CHR 0x0A) #
     indentOf d @ serializeMembers d (m # ms)"

definition JSON_stringify :: "json \<Rightarrow> jsString" where
  "JSON_stringify v = SerializeJSONProperty 0 v"

text \<open>The text that \<^verbatim>\<open>exportToJson\<close> puts into the file.\<close>

definition exportToJson :: "state \<Rightarrow> jsString" where
  "exportToJson s = JSON_stringify (exportData s)"

subsection \<open>\<^verbatim>\<open>JSON.parse\<close>\<close>

text \<open>
  The platform's parser, after the JSON grammar of ECMA-262 and ECMA-404, on texts whose
  numbers are written without fraction and exponent; any other text is \<open>None\<close>, as a
  syntax error is. Each function returns what it read together with the rest of the text.
\<close>

definition isWs :: "codeUnit \<Rightarrow> bool" where
  "isWs c = (c = cu (CHR 0x09) \<or> c = cu (CHR 0x0A) \<or> c = cu (CHR 0x0D) \<or> c = cu (CHR 0x20))"

definition isDigit :: "codeUnit \<Rightarrow> bool" where
  "isDigit c = (48 \<le> unat c \<and> unat c \<le> 57)"

definition digitsValue :: "jsString \<Rightarrow> nat" where
  "digitsValue ds = foldl (\<lambda>a c. 10 * a + (unat c - 48)) 0 ds"

definition hexValue :: "codeUnit \<Rightarrow> nat option" where
  "hexValue c =
     (let n = unat c in
      if 48 \<le> n \<and> n \<le> 57 then Some (n - 48)
      else if 97 \<le> n \<and> n \<le> 102 then Some (n - 87)
      else if 65 \<le> n \<and> n \<le> 70 then Some (n - 55)
      else None)"

definition unescape :: "codeUnit \<Rightarrow> codeUnit option" where
  "unescape e =
     (if e = cu (CHR 0x22) then Some (cu (CHR 0x22))
      else if e = cu (CHR 0x5C) then Some (cu (CHR 0x5C))
      else if e = cu CHR ''/'' then Some (cu CHR ''/'')
      else if e = cu CHR ''b'' then Some (cu (CHR 0x08))
      else if e = cu CHR ''f'' then Some (cu (CHR 0x0C))
      else if e = cu CHR ''n'' then Some (cu (CHR 0x0A))
      else if e = cu CHR ''r'' then Some (cu (CHR 0x0D))
      else if e = cu CHR ''t'' then Some (cu (CHR 0x09))
      else None)"

fun skipWs :: "jsString \<Rightarrow> jsString" where
  "skipWs [] = []"
| "skipWs (c # cs) = (if isWs c then skipWs cs else c # cs)"

text \<open>A number: an optional minus sign and digits, without a leading zero before another
  digit.\<close>

definition parseNumber :: "jsString \<Rightarrow> (int \<times> jsString) option" where
  "parseNumber cs =
     (let neg = (cs \<noteq> [] \<and> hd cs = cu CHR ''-'');
          body = (if neg then tl cs else cs);
          ds = takeWhile isDigit body;
          rest = dropWhile isDigit body
      in if ds = [] then None
         else if hd ds = cu CHR ''0'' \<and> length ds > 1 then None
         else if rest \<noteq> [] \<and>
                 (hd rest = cu CHR ''.'' \<or> hd rest = cu CHR ''e'' \<or> hd rest = cu CHR ''E'')
         then None
         else Some (if neg then - int (digitsValue ds) else int (digitsValue ds), rest))"

text \<open>The code units of a string, after the opening quote, up to the closing one. A
  \<^verbatim>\<open>\u\<close> escape stands for the code unit of its four hexadecimal digits.\<close>

fun parseChars :: "jsString \<Rightarrow> (jsString \<times> jsString) option" where
  "parseChars [] = None"
| "parseChars (c # cs) =
     (if c = cu (CHR 0x22) then Some ([], cs)
      else if c = cu (CHR 0x5C) then
        (case cs of
           [] \<Rightarrow> None
         | e # cs1 \<Rightarrow>
             if e = cu CHR ''u'' then
               (case cs1 of
                  h3 # h2 # h1 # h0 # cs2 \<Rightarrow>
                    (case (hexValue h3, hexValue h2, hexValue h1, hexValue h0) of
                       (Some a, Some b, Some c', Some d) \<Rightarrow>
                         (case parseChars cs2 of
                            None \<Rightarrow> None
                          | Some (s, r) \<Rightarrow>
                              Some (of_nat (4096 * a + 256 * b + 16 * c' + d) # s, r))
                     | _ \<Rightarrow> None)
                | _ \<Rightarrow> None)
             else
               (case unescape e of
                  None \<Rightarrow> None
                | Some x \<Rightarrow>
                    (case parseChars cs1 of
                       None \<Rightarrow> None
                     | Some (s, r) \<Rightarrow> Some (x # s, r))))
      else if unat c < 0x20 then None
      else
        (case parseChars cs of
           None \<Rightarrow> None
         | Some (s, r) \<Rightarrow> Some (c # s, r)))"

text \<open>A later property with the same name replaces the value of the earlier one, which
  keeps its place.\<close>

definition addMember :: "jsString \<Rightarrow> json \<Rightarrow> (jsString \<times> json) list \<Rightarrow> (jsString \<times> json) list" where
  "addMember k v ms =
     (case map_of ms k of
        None \<Rightarrow> (k, v) # ms
      | Some v' \<Rightarrow> (k, v') # filter (\<lambda>m. fst m \<noteq> k) ms)"

text \<open>
  Values, the elements of an array after its opening bracket, and the members of an object
  after its opening brace. The first argument bounds the depth of the recursion.
\<close>

fun parseValue :: "nat \<Rightarrow> jsString \<Rightarrow> (json \<times> jsString) option"
  and parseElements :: "nat \<Rightarrow> jsString \<Rightarrow> (json list \<times> jsString) option"
  and parseMembers :: "nat \<Rightarrow> jsString \<Rightarrow> ((jsString \<times> json) list \<times> jsString) option"
where
  "parseValue 0 cs = None"
| "parseValue (Suc f) cs =
     (case skipWs cs of
        [] \<Rightarrow> None
      | c # r \<Rightarrow>
          if c = cu (CHR 0x22) then
            (case parseChars r of None \<Rightarrow> None | Some (s, r') \<Rightarrow> Some (JString s, r'))
          else if c = cu CHR ''['' then
            (case skipWs r of
               [] \<Rightarrow> None
             | c' # r' \<Rightarrow>
                 if c' = cu CHR '']'' then Some (JArray [], r')
                 else (case parseElements f r of
                         None \<Rightarrow> None
                       | Some (vs, r'') \<Rightarrow> Some (JArray vs, r'')))
          else if c = cu CHR ''{'' then
            (case skipWs r of
               [] \<Rightarrow> None
             | c' # r' \<Rightarrow>
                 if c' = cu CHR ''}'' then Some (JObject [], r')
                 else (case parseMembers f r of
                         None \<Rightarrow> None
                       | Some (ms, r'') \<Rightarrow> Some (JObject ms, r'')))
          else if take 4 (c # r) = js ''null'' then Some (JNull, drop 4 (c # r))
          else if take 4 (c # r) = js ''true'' then Some (JBool True, drop 4 (c # r))
          else if take 5 (c # r) = js ''false'' then Some (JBool False, drop 5 (c # r))
          else
            (case parseNumber (c # r) of
               None \<Rightarrow> None
             | Some (i, r') \<Rightarrow> Some (JNumber i, r')))"
| "parseElements 0 cs = None"
| "parseElements (Suc f) cs =
     (case parseValue f cs of
        None \<Rightarrow> None
      | Some (v, r) \<Rightarrow>
          (case skipWs r of
             [] \<Rightarrow> None
           | c # r' \<Rightarrow>
               if c = cu CHR '','' then
                 (case parseElements f r' of
                    None \<Rightarrow> None
                  | Some (vs, r'') \<Rightarrow> Some (v # vs, r''))
               else if c = cu CHR '']'' then Some ([v], r')
               else None))"
| "parseMembers 0 cs = None"
| "parseMembers (Suc f) cs =
     (case skipWs cs of
        [] \<Rightarrow> None
      | q # r0 \<Rightarrow>
          if q \<noteq> cu (CHR 0x22) then None
          else
            (case parseChars r0 of
               None \<Rightarrow> None
             | Some (k, r1) \<Rightarrow>
                 (case skipWs r1 of
                    [] \<Rightarrow> None
                  | c1 # r2 \<Rightarrow>
                      if c1 \<noteq> cu CHR '':'' then None
                      else
                        (case parseValue f r2 of
                           None \<Rightarrow> None
                         | Some (v, r3) \<Rightarrow>
                             (case skipWs r3 of
                                [] \<Rightarrow> None
                              | c # r4 \<Rightarrow>
                                  if c = cu CHR '','' then
                                    (case parseMembers f r4 of
                                       None \<Rightarrow> None
                                     | Some (ms, r5) \<Rightarrow> Some (addMember k v ms, r5))
                                  else if c = cu CHR ''}'' then Some ([(k, v)], r4)
                                  else None)))))"

text \<open>The whole text is one value between white space.\<close>

definition JSON_parse :: "jsString \<Rightarrow> json option" where
  "JSON_parse text =
     (case parseValue (2 * length text + 2) text of
        None \<Rightarrow> None
      | Some (v, r) \<Rightarrow> if skipWs r = [] then Some v else None)"

subsection \<open>Reading a parsed export\<close>

text \<open>
  What a reader of the file gets out of the parsed value, property by property: the
  elapsed time and, for each element of \<^verbatim>\<open>players\<close> in order, the id, the name, the colour
  and the data points.
\<close>

fun property :: "jsString \<Rightarrow> json \<Rightarrow> json option" where
  "property k (JObject ms) = map_of ms k"
| "property k _ = None"

fun asNumber :: "json option \<Rightarrow> int option" where
  "asNumber (Some (JNumber i)) = Some i"
| "asNumber _ = None"

fun asString :: "json option \<Rightarrow> jsString option" where
  "asString (Some (JString s)) = Some s"
| "asString _ = None"

fun asArray :: "json option \<Rightarrow> json list option" where
  "asArray (Some (JArray vs)) = Some vs"
| "asArray _ = None"

fun allSome :: "'a option list \<Rightarrow> 'a list option" where
  "allSome [] = Some []"
| "allSome (None # xs) = None"
| "allSome (Some x # xs) = (case allSome xs of None \<Rightarrow> None | Some ys \<Rightarrow> Some (x # ys))"

fun readPoint :: "json \<Rightarrow> dataPoint option" where
  "readPoint (JArray [JNumber x, JNumber y]) = Some (x, y)"
| "readPoint _ = None"

type_synonym exportedPlayer = "int \<times> jsString \<times> jsString \<times> dataPoint list"

definition readPlayer :: "json \<Rightarrow> exportedPlayer option" where
  "readPlayer v =
     (case (asNumber (property (js ''id'') v), asString (property (js ''name'') v),
            asString (property (js ''color'') v), asArray (property (js ''dataPoints'') v)) of
        (Some i, Some n, Some c, Some ps) \<Rightarrow>
          (case allSome (map readPoint ps) of
             None \<Rightarrow> None
           | Some pts \<Rightarrow> Some (i, n, c, pts))
      | _ \<Rightarrow> None)"

definition readExport :: "json \<Rightarrow> (int \<times> exportedPlayer list) option" where
  "readExport v =
     (case (asNumber (property (js ''elapsedTime'') v), asArray (property (js ''players'') v)) of
        (Some t, Some ps) \<Rightarrow>
          (case allSome (map readPlayer ps) of
             None \<Rightarrow> None
           | Some pls \<Rightarrow> Some (t, pls))
      | _ \<Rightarrow> None)"

subsection \<open>Predicates used in the proofs\<close>

text \<open>What may follow a number: the end of the text, or a character that does not go on
  with the number.\<close>

definition numEnd :: "jsString \<Rightarrow> bool" where
  "numEnd rest =
     (rest = [] \<or>
      (\<not> isDigit (hd rest) \<and> hd rest \<noteq> cu CHR ''.'' \<and> hd rest \<noteq> cu CHR ''e'' \<and>
       hd rest \<noteq> cu CHR ''E''))"

text \<open>The first character of a serialized value.\<close>

definition valueStart :: "codeUnit \<Rightarrow> bool" where
  "valueStart c = (\<not> isWs c \<and> c \<noteq> cu CHR '']'' \<and> c \<noteq> cu CHR ''}'')"

text \<open>No object has two properties of the same name: the values that an object literal or
  a parsed text can yield.\<close>

fun distinctNames :: "json \<Rightarrow> bool"
  and distinctNamesElements :: "json list \<Rightarrow> bool"
  and distinctNamesMembers :: "(jsString \<times> json) list \<Rightarrow> bool"
where
  "distinctNames (JArray vs) = distinctNamesElements vs"
| "distinctNames (JObject ms) = (distinct (map fst ms) \<and> distinctNamesMembers ms)"
| "distinctNames JNull = True"
| "distinctNames (JBool b) = True"
| "distinctNames (JNumber i) = True"
| "distinctNames (JString s) = True"
| "distinctNamesElements [] = True"
| "distinctNamesElements (v # vs) = (distinctNames v \<and> distinctNamesElements vs)"
| "distinctNamesMembers [] = True"
| "distinctNamesMembers ((k, v) # ms) = (distinctNames v \<and> distinctNamesMembers ms)"

section \<open>Properties of the handlers\<close>

lemma js_eq_Nil [simp]: "(js s = []) = (s = [])"
  by (simp add: js_def)

lemma list_all2_map_self: "list_all2 P xs (map f xs) = (\<forall>x\<in>set xs. P x (f x))"
  by (induction xs) auto

lemma players_incrementPlayer:
  "players (incrementPlayer i now s) =
     map (\<lambda>p. (if id_p p = i then p\<lparr>yValue := yValue p + 1\<rparr> else p)
            \<lparr>dataPoints := dataPoints p @
               [(currentElapsedTime now s, if id_p p = i then yValue p + 1 else yValue p)]\<rparr>)
       (players s)"
  by (simp add: incrementPlayer_def updateAllPlayersWithTime_def currentElapsedTime_def comp_def)

lemma players_decrementPlayer:
  "players (decrementPlayer i now s) =
     map (\<lambda>p. (if id_p p = i then p\<lparr>yValue := yValue p - 1\<rparr> else p)
            \<lparr>dataPoints := dataPoints p @
               [(currentElapsedTime now s, if id_p p = i then yValue p - 1 else yValue p)]\<rparr>)
       (players s)"
  by (simp add: decrementPlayer_def updateAllPlayersWithTime_def currentElapsedTime_def comp_def)

lemma players_tick:
  "players (tick now1 now2 s) =
     map (\<lambda>p. p\<lparr>dataPoints := dataPoints p @ [(currentElapsedTime now1 s, yValue p)]\<rparr>)
       (players s)"
  by (simp add: tick_def updateAllPlayersWithTime_def)

lemma elapsedTime_incrementPlayer:
  "elapsedTime (incrementPlayer i now s) = currentElapsedTime now s"
  by (simp add: incrementPlayer_def updateAllPlayersWithTime_def currentElapsedTime_def)

lemma elapsedTime_decrementPlayer:
  "elapsedTime (decrementPlayer i now s) = currentElapsedTime now s"
  by (simp add: decrementPlayer_def updateAllPlayersWithTime_def currentElapsedTime_def)

lemma elapsedTime_tick: "elapsedTime (tick now1 now2 s) = currentElapsedTime now2 s"
  by (simp add: tick_def)

lemma players_addPlayer:
  "truthy playerName \<Longrightarrow>
   players (addPlayer playerName now rnd s) =
     players s @ [\<lparr>id_p = nextPlayerId s, name = the playerName,
                   color = js (CHR ''#'' # toString16 rnd),
                   dataPoints = [(currentElapsedTime now s, 0)], yValue = 0\<rparr>]"
  by (cases playerName) (auto simp: addPlayer_def)

lemma addPlayer_falsy: "\<not> truthy playerName \<Longrightarrow> addPlayer playerName now rnd s = s"
  by (cases playerName) (auto simp: addPlayer_def)

lemma startTime_addPlayer [simp]: "startTime (addPlayer playerName now rnd s) = startTime s"
  by (cases playerName) (auto simp: addPlayer_def)

lemma currentElapsedTime_addPlayer [simp]:
  "currentElapsedTime t (addPlayer playerName now rnd s) = currentElapsedTime t s"
  by (simp add: currentElapsedTime_def)

lemma firstPlayerTime_addPlayer:
  "truthy playerName \<Longrightarrow>
   firstPlayerTime (addPlayer playerName now rnd s) =
     (if firstPlayerTime s = None then Some (currentElapsedTime now s) else firstPlayerTime s)"
  by (cases playerName) (auto simp: addPlayer_def)

lemma run_append: "run s (xs @ ys) = run (run s xs) ys"
  by (induction xs arbitrary: s) auto

text \<open>The state the scenario of the specification ends in.\<close>

lemma run_scenario:
  "run (initial 0) scenario =
     \<lparr>players =
        [\<lparr>id_p = 1, name = js ''Alice'', color = js ''#ff'',
          dataPoints = [(0, 0), (5, 1), (8, 1)], yValue = 1\<rparr>,
         \<lparr>id_p = 2, name = js ''Bob'', color = js ''#1000'',
          dataPoints = [(5, 0), (8, - 1)], yValue = - 1\<rparr>],
      firstPlayerTime = Some 0, elapsedTime = 8, nextPlayerId = 3, startTime = 0\<rparr>"
  by (simp add: scenario_def initial_def addPlayer_def incrementPlayer_def decrementPlayer_def
      updateAllPlayersWithTime_def currentElapsedTime_def toString16.simps hexDigit_def)

section \<open>The synchronized append\<close>

text \<open>
  Claim C1 says that after \<open>incrementPlayer\<close>, \<open>decrementPlayer\<close> or a tick the
  x-coordinate of the appended points is \<open>floor ((now - startTime) / 1000)\<close> and that
  this value is the new \<open>elapsedTime\<close>. For a tick the second part can fail: the timer
  callback reads the clock a second time for its own \<^verbatim>\<open>setElapsedTime\<close>, which is the one
  that is kept. When a second boundary lies between the two readings, as between 9999 and
  10000 milliseconds here, the points are appended at second 9 and \<open>elapsedTime\<close>
  becomes 10.
\<close>

theorem tick_elapsedTime_counterexample:
  "fst (last (dataPoints (hd (players (tick 9999 10000 (run (initial 0) scenario)))))) = 9 \<and>
   elapsedTime (tick 9999 10000 (run (initial 0) scenario)) = 10"
  by (simp add: run_scenario tick_def updateAllPlayersWithTime_def currentElapsedTime_def)

text \<open>
  Claim C1, as amended. After \<open>incrementPlayer\<close>, \<open>decrementPlayer\<close> or a tick, the
  players are the same, every series is exactly one point longer, and the x-coordinate of
  the new point is the same for all players, namely \<open>floor ((now - startTime) / 1000)\<close>
  for the reading \<open>now\<close> of the clock that \<open>updateAllPlayersWithTime\<close> makes. After
  the two score handlers this value is also the new \<open>elapsedTime\<close>. After a tick the new
  \<open>elapsedTime\<close> is \<open>floor ((now2 - startTime) / 1000)\<close> for the second reading
  \<open>now2\<close> of the timer callback; it is the x-coordinate of the new points whenever both
  readings fall into the same second.
\<close>

theorem synchronized_append:
  "appendedAt (currentElapsedTime now s) s (incrementPlayer i now s) \<and>
   elapsedTime (incrementPlayer i now s) = currentElapsedTime now s \<and>
   appendedAt (currentElapsedTime now s) s (decrementPlayer i now s) \<and>
   elapsedTime (decrementPlayer i now s) = currentElapsedTime now s \<and>
   appendedAt (currentElapsedTime now s) s (tick now now2 s) \<and>
   elapsedTime (tick now now2 s) = currentElapsedTime now2 s \<and>
   (currentElapsedTime now2 s = currentElapsedTime now s \<longrightarrow>
      elapsedTime (tick now now2 s) = currentElapsedTime now s)"
  by (simp add: appendedAt_def players_incrementPlayer players_decrementPlayer players_tick
      elapsedTime_incrementPlayer elapsedTime_decrementPlayer elapsedTime_tick
      list_all2_map_self)

theorem synchronized_append_witness:
  "currentElapsedTime 10400 (run (initial 0) scenario) =
     currentElapsedTime 10000 (run (initial 0) scenario) \<and>
   appendedAt 10 (run (initial 0) scenario) (tick 10000 10400 (run (initial 0) scenario)) \<and>
   elapsedTime (tick 10000 10400 (run (initial 0) scenario)) = 10 \<and>
   appendedAt 10 (run (initial 0) scenario) (incrementPlayer 2 10000 (run (initial 0) scenario))"
proof -
  have cet: "currentElapsedTime 10000 (run (initial 0) scenario) = 10"
    "currentElapsedTime 10400 (run (initial 0) scenario) = 10"
    by (simp_all add: run_scenario currentElapsedTime_def)
  from synchronized_append [of 10000 "run (initial 0) scenario" 2 10400] show ?thesis
    by (simp add: cet)
qed

section \<open>Score changes\<close>

text \<open>
  Claim C2. \<open>incrementPlayer i\<close> adds 1 to the score of the player with id \<open>i\<close> and
  \<open>decrementPlayer i\<close> subtracts 1, whatever the score is (there is no bound: scores are
  integers and go below zero); every other score is unchanged, as are ids, names and
  colours; and the point that the synchronized append adds to each series carries the
  score after the change.
\<close>

theorem adjust_score:
  "adjustedBy 1 i (currentElapsedTime now s) s (incrementPlayer i now s) \<and>
   adjustedBy (- 1) i (currentElapsedTime now s) s (decrementPlayer i now s)"
  by (simp add: adjustedBy_def players_incrementPlayer players_decrementPlayer
      list_all2_map_self)

theorem adjust_score_witness:
  "adjustedBy (- 1) 2 8 (run (initial 0) (take 3 scenario)) (run (initial 0) scenario) \<and>
   map yValue (players (run (initial 0) scenario)) = [1, - 1] \<and>
   map dataPoints (players (run (initial 0) scenario)) =
     [[(0, 0), (5, 1), (8, 1)], [(5, 0), (8, - 1)]]"
proof -
  have split: "scenario = take 3 scenario @ [DecrementPlayer 2 8000]"
    by (simp add: scenario_def)
  have st: "startTime (run (initial 0) (take 3 scenario)) = 0"
    by (simp add: scenario_def initial_def addPlayer_def incrementPlayer_def
        updateAllPlayersWithTime_def)
  have "run (initial 0) scenario =
        decrementPlayer 2 8000 (run (initial 0) (take 3 scenario))"
    by (subst split) (simp only: run_append run.simps step.simps)
  with adjust_score [of 2 8000 "run (initial 0) (take 3 scenario)"] st
  have "adjustedBy (- 1) 2 8 (run (initial 0) (take 3 scenario)) (run (initial 0) scenario)"
    by (simp add: currentElapsedTime_def)
  then show ?thesis
    by (simp add: run_scenario)
qed

section \<open>Reset\<close>

text \<open>
  Claim C3. After \<open>resetAllPlayers\<close> every player has score 0 and a series of exactly one
  point, \<open>(t, 0)\<close> where \<open>t\<close> is \<open>firstPlayerTime\<close> before the reset, or 0 when that was
  null; \<open>elapsedTime\<close> is 0, the origin of the clock is the reading \<open>now\<close>, and
  \<open>firstPlayerTime\<close> is null.
\<close>

theorem resetAll_result:
  "(\<forall>p \<in> set (players (resetAllPlayers now s)).
      yValue p = 0 \<and> length (dataPoints p) = 1 \<and>
      dataPoints p = [(case firstPlayerTime s of Some t \<Rightarrow> t | None \<Rightarrow> 0, 0)]) \<and>
   elapsedTime (resetAllPlayers now s) = 0 \<and>
   startTime (resetAllPlayers now s) = now \<and>
   firstPlayerTime (resetAllPlayers now s) = None"
  by (auto simp: resetAllPlayers_def)

theorem resetAll_result_witness:
  "map yValue (players (resetAllPlayers 9000 (run (initial 0) scenario))) = [0, 0] \<and>
   map dataPoints (players (resetAllPlayers 9000 (run (initial 0) scenario))) =
     [[(0, 0)], [(0, 0)]] \<and>
   list_all (\<lambda>p. yValue p = 0 \<and> length (dataPoints p) = 1 \<and> dataPoints p = [(0, 0)])
     (players (resetAllPlayers 9000 (run (initial 0) scenario))) \<and>
   elapsedTime (resetAllPlayers 9000 (run (initial 0) scenario)) = 0 \<and>
   startTime (resetAllPlayers 9000 (run (initial 0) scenario)) = 9000 \<and>
   firstPlayerTime (resetAllPlayers 9000 (run (initial 0) scenario)) = None"
proof -
  have fpt: "firstPlayerTime (run (initial 0) scenario) = Some 0"
    by (simp add: run_scenario)
  have "map yValue (players (resetAllPlayers 9000 (run (initial 0) scenario))) = [0, 0]"
    "map dataPoints (players (resetAllPlayers 9000 (run (initial 0) scenario))) =
       [[(0, 0)], [(0, 0)]]"
    by (simp_all add: run_scenario resetAllPlayers_def)
  with resetAll_result [of 9000 "run (initial 0) scenario"] show ?thesis
    by (simp add: fpt list_all_iff)
qed

text \<open>
  Claim C9. \<open>resetAllPlayers\<close> neither adds nor removes a player: the list has the same
  length, and the ids, names and colours are the same, in the same order; \<open>nextPlayerId\<close>
  stays as well.
\<close>

theorem resetAll_frame:
  "length (players (resetAllPlayers now s)) = length (players s) \<and>
   map id_p (players (resetAllPlayers now s)) = map id_p (players s) \<and>
   map name (players (resetAllPlayers now s)) = map name (players s) \<and>
   map color (players (resetAllPlayers now s)) = map color (players s) \<and>
   nextPlayerId (resetAllPlayers now s) = nextPlayerId s"
  by (simp add: resetAllPlayers_def comp_def)

theorem resetAll_frame_witness:
  "map id_p (players (resetAllPlayers 9000 (run (initial 0) scenario))) = [1, 2] \<and>
   map name (players (resetAllPlayers 9000 (run (initial 0) scenario))) =
     [js ''Alice'', js ''Bob''] \<and>
   map color (players (resetAllPlayers 9000 (run (initial 0) scenario))) =
     [js ''#ff'', js ''#1000'']"
  using resetAll_frame [of 9000 "run (initial 0) scenario"]
  by (simp add: run_scenario)

section \<open>Adding and removing players\<close>

text \<open>
  Claim C5. \<open>addPlayer\<close> with a cancelled prompt (\<^verbatim>\<open>null\<close>) or an empty name returns the
  state it was given, whole: no player, and \<open>nextPlayerId\<close> and \<open>firstPlayerTime\<close> as
  they were. \<open>removePlayer\<close> with an id that no player has returns the state it was given.
  Both are total functions into states: there is no error to signal.
\<close>

theorem silent_noops:
  "addPlayer None now rnd s = s \<and> addPlayer (Some []) now rnd s = s \<and>
   (i \<notin> set (map id_p (players s)) \<longrightarrow> removePlayer i s = s)"
proof -
  have "i \<notin> set (map id_p (players s)) \<Longrightarrow>
        filter (\<lambda>p. id_p p \<noteq> i) (players s) = players s"
    by (rule filter_True) auto
  then show ?thesis
    by (simp add: addPlayer_def removePlayer_def)
qed

theorem silent_noops_witness:
  "7 \<notin> set (map id_p (players (run (initial 0) scenario))) \<and>
   removePlayer 7 (run (initial 0) scenario) = run (initial 0) scenario \<and>
   addPlayer (Some []) 9000 5 (run (initial 0) scenario) = run (initial 0) scenario"
proof -
  have "7 \<notin> set (map id_p (players (run (initial 0) scenario)))"
    by (simp add: run_scenario)
  with silent_noops [of 9000 5 "run (initial 0) scenario" 7] show ?thesis
    by simp
qed

text \<open>
  Claim C10. A successful \<open>addPlayer\<close> appends the new player and touches nothing else in
  the list: the players that were there are the same records (id, name, colour, score and
  series), so no point is appended to any series; \<open>elapsedTime\<close> and the origin of the
  clock are unchanged.
\<close>

theorem addPlayer_frame:
  "truthy playerName \<Longrightarrow>
   length (players (addPlayer playerName now rnd s)) = length (players s) + 1 \<and>
   butlast (players (addPlayer playerName now rnd s)) = players s \<and>
   elapsedTime (addPlayer playerName now rnd s) = elapsedTime s \<and>
   startTime (addPlayer playerName now rnd s) = startTime s"
  by (cases playerName) (simp_all add: addPlayer_def)

theorem addPlayer_frame_witness:
  "truthy (Some (js ''Carol'')) \<and>
   butlast (players (addPlayer (Some (js ''Carol'')) 9000 5 (run (initial 0) scenario))) =
     players (run (initial 0) scenario) \<and>
   elapsedTime (addPlayer (Some (js ''Carol'')) 9000 5 (run (initial 0) scenario)) = 8 \<and>
   startTime (addPlayer (Some (js ''Carol'')) 9000 5 (run (initial 0) scenario)) = 0"
proof -
  have t: "truthy (Some (js ''Carol''))" by simp
  from addPlayer_frame [OF t, of 9000 5 "run (initial 0) scenario"] t show ?thesis
    by (simp add: run_scenario)
qed

section \<open>Ids\<close>

lemma map_id_p_handlers:
  "map id_p (players (addPlayer playerName now rnd s)) =
     (if truthy playerName then map id_p (players s) @ [nextPlayerId s]
      else map id_p (players s))"
  "map id_p (players (removePlayer i s)) = filter (\<lambda>j. j \<noteq> i) (map id_p (players s))"
  "map id_p (players (incrementPlayer i now s)) = map id_p (players s)"
  "map id_p (players (decrementPlayer i now s)) = map id_p (players s)"
  "map id_p (players (changePlayerColor i c s)) = map id_p (players s)"
  "map id_p (players (resetAllPlayers now s)) = map id_p (players s)"
  "map id_p (players (tick now1 now2 s)) = map id_p (players s)"
  by (auto simp: addPlayer_def removePlayer_def incrementPlayer_def decrementPlayer_def
        changePlayerColor_def resetAllPlayers_def tick_def updateAllPlayersWithTime_def
        comp_def filter_map
        split: option.splits intro!: map_idI)

lemma nextPlayerId_handlers:
  "nextPlayerId (addPlayer playerName now rnd s) =
     (if truthy playerName then nextPlayerId s + 1 else nextPlayerId s)"
  "nextPlayerId (removePlayer i s) = nextPlayerId s"
  "nextPlayerId (incrementPlayer i now s) = nextPlayerId s"
  "nextPlayerId (decrementPlayer i now s) = nextPlayerId s"
  "nextPlayerId (changePlayerColor i c s) = nextPlayerId s"
  "nextPlayerId (resetAllPlayers now s) = nextPlayerId s"
  "nextPlayerId (tick now1 now2 s) = nextPlayerId s"
  by (auto simp: addPlayer_def removePlayer_def incrementPlayer_def decrementPlayer_def
        changePlayerColor_def resetAllPlayers_def tick_def updateAllPlayersWithTime_def
        split: option.splits)

lemma step_nextPlayerId:
  "nextPlayerId (step e s) = (if successfulAdd e then nextPlayerId s + 1 else nextPlayerId s)"
  by (cases e) (simp_all add: nextPlayerId_handlers)

lemma assignedId_eq:
  "assignedId e s = (if successfulAdd e then Some (nextPlayerId s) else None)"
  by (cases e) (auto simp: players_addPlayer)

lemma idsBelow_step: "idsBelow s \<Longrightarrow> idsBelow (step e s)"
proof -
  assume inv: "idsBelow s"
  have srt: "sorted_wrt (<) (map id_p (players (step e s)))"
    using inv
    by (cases e)
       (auto simp: map_id_p_handlers idsBelow_def sorted_wrt_append sorted_wrt_filter
          simp del: set_map)
  have "\<forall>i \<in> set (map id_p (players (step e s))). i < nextPlayerId (step e s)"
    using inv
    by (cases e)
       (auto simp: map_id_p_handlers nextPlayerId_handlers idsBelow_def simp del: set_map)
  with srt show ?thesis
    unfolding idsBelow_def by blast
qed

lemma idsBelow_run: "idsBelow s \<Longrightarrow> idsBelow (run s evs)"
  by (induction evs arbitrary: s) (auto simp: idsBelow_step)

lemma idsBelow_initial: "idsBelow (initial t0)"
  by (simp add: idsBelow_def initial_def)

lemma nextPlayerId_run_mono: "nextPlayerId s \<le> nextPlayerId (run s evs)"
proof (induction evs arbitrary: s)
  case Nil
  show ?case by simp
next
  case (Cons e evs)
  have "nextPlayerId s \<le> nextPlayerId (step e s)"
    by (simp add: step_nextPlayerId)
  also have "\<dots> \<le> nextPlayerId (run (step e s) evs)"
    by (rule Cons.IH)
  finally show ?case by simp
qed

lemma assignedIds_bounds:
  "i \<in> set (assignedIds s evs) \<Longrightarrow> nextPlayerId s \<le> i \<and> i < nextPlayerId (run s evs)"
proof (induction evs arbitrary: s)
  case Nil
  then show ?case by simp
next
  case (Cons e evs)
  show ?case
  proof (cases "i \<in> set (assignedIds (step e s) evs)")
    case True
    from Cons.IH [OF True]
    have "nextPlayerId (step e s) \<le> i" "i < nextPlayerId (run (step e s) evs)"
      by simp_all
    then show ?thesis
      by (simp add: step_nextPlayerId split: if_splits)
  next
    case False
    with Cons.prems have e: "successfulAdd e" and i: "i = nextPlayerId s"
      by (auto simp: assignedId_eq split: if_splits)
    have "nextPlayerId (step e s) \<le> nextPlayerId (run (step e s) evs)"
      by (rule nextPlayerId_run_mono)
    with e i show ?thesis
      by (simp add: step_nextPlayerId)
  qed
qed

lemma assignedIds_increasing: "sorted_wrt (<) (assignedIds s evs)"
proof (induction evs arbitrary: s)
  case Nil
  show ?case by simp
next
  case (Cons e evs)
  have "\<forall>i \<in> set (assignedIds (step e s) evs). nextPlayerId (step e s) \<le> i"
    using assignedIds_bounds by blast
  then show ?case
    using Cons.IH [of "step e s"]
    by (auto simp: assignedId_eq step_nextPlayerId sorted_wrt_append)
qed

lemma players_ids_assigned:
  "set (map id_p (players (run s evs))) \<subseteq> set (map id_p (players s)) \<union> set (assignedIds s evs)"
proof (induction evs arbitrary: s)
  case Nil
  show ?case by simp
next
  case (Cons e evs)
  have "set (map id_p (players (step e s))) \<subseteq>
        set (map id_p (players s)) \<union> (case assignedId e s of None \<Rightarrow> {} | Some i \<Rightarrow> {i})"
    by (cases e) (auto simp: map_id_p_handlers assignedId_eq simp del: set_map)
  with Cons.IH [of "step e s"] show ?case
    by (auto split: option.splits)
qed

text \<open>
  Claim C4. From the initial state, along any sequence of events (additions and removals,
  and every other event as well), the ids given to the players that are added are strictly
  increasing in the order they are given, hence pairwise different: the id of a removed
  player is never given again. The players present at any moment have pairwise different
  ids, each of them one that was given, and every id given so far is below
  \<open>nextPlayerId\<close>.
\<close>

theorem ids_unique_increasing:
  "sorted_wrt (<) (assignedIds (initial t0) evs) \<and>
   distinct (assignedIds (initial t0) evs) \<and>
   distinct (map id_p (players (run (initial t0) evs))) \<and>
   set (map id_p (players (run (initial t0) evs))) \<subseteq> set (assignedIds (initial t0) evs) \<and>
   (\<forall>i \<in> set (assignedIds (initial t0) evs). i < nextPlayerId (run (initial t0) evs))"
proof -
  have a: "sorted_wrt (<) (assignedIds (initial t0) evs)"
    by (rule assignedIds_increasing)
  then have b: "distinct (assignedIds (initial t0) evs)"
    by (simp add: strict_sorted_iff)
  have "idsBelow (run (initial t0) evs)"
    by (rule idsBelow_run [OF idsBelow_initial])
  then have c: "distinct (map id_p (players (run (initial t0) evs)))"
    by (simp add: idsBelow_def strict_sorted_iff)
  have d: "set (map id_p (players (run (initial t0) evs))) \<subseteq> set (assignedIds (initial t0) evs)"
    using players_ids_assigned [of "initial t0" evs] by (simp add: initial_def)
  have e: "\<forall>i \<in> set (assignedIds (initial t0) evs). i < nextPlayerId (run (initial t0) evs)"
    using assignedIds_bounds by blast
  from a b c d e show ?thesis by blast
qed

theorem ids_unique_increasing_witness:
  "assignedIds (initial 0) longerSession = [1, 2, 3, 4] \<and>
   map id_p (players (run (initial 0) longerSession)) = [3, 4] \<and>
   sorted_wrt (<) (assignedIds (initial 0) longerSession) \<and>
   distinct (map id_p (players (run (initial 0) longerSession))) \<and>
   list_all (\<lambda>i. i < nextPlayerId (run (initial 0) longerSession))
     (assignedIds (initial 0) longerSession)"
proof -
  have "assignedIds (initial 0) longerSession = [1, 2, 3, 4]"
    by (simp add: longerSession_def scenario_def initial_def addPlayer_def incrementPlayer_def
        decrementPlayer_def updateAllPlayersWithTime_def removePlayer_def)
  moreover have "map id_p (players (run (initial 0) longerSession)) = [3, 4]"
    by (simp add: longerSession_def scenario_def initial_def addPlayer_def incrementPlayer_def
        decrementPlayer_def updateAllPlayersWithTime_def removePlayer_def)
  ultimately show ?thesis
    using ids_unique_increasing [of 0 longerSession] by (simp add: list_all_iff)
qed

section \<open>The time of the first player\<close>

lemma step_firstPlayerTime_other:
  "\<not> successfulAdd e \<Longrightarrow> \<not> isReset e \<Longrightarrow> firstPlayerTime (step e s) = firstPlayerTime s"
  by (cases e)
     (auto simp: addPlayer_falsy removePlayer_def incrementPlayer_def decrementPlayer_def
        changePlayerColor_def tick_def updateAllPlayersWithTime_def)

lemma step_firstPlayerTime_reset: "isReset e \<Longrightarrow> firstPlayerTime (step e s) = None"
  by (cases e) (auto simp: resetAllPlayers_def)

lemma run_no_add_None:
  "firstPlayerTime s = None \<Longrightarrow> \<forall>e \<in> set evs. \<not> successfulAdd e \<Longrightarrow>
   firstPlayerTime (run s evs) = None"
proof (induction evs arbitrary: s)
  case Nil
  then show ?case by simp
next
  case (Cons e evs)
  have "firstPlayerTime (step e s) = None"
    using Cons.prems
    by (cases "isReset e") (simp_all add: step_firstPlayerTime_reset step_firstPlayerTime_other)
  with Cons show ?case by simp
qed

lemma run_no_reset_Some:
  "firstPlayerTime s = Some t \<Longrightarrow> \<forall>e \<in> set evs. \<not> isReset e \<Longrightarrow>
   firstPlayerTime (run s evs) = Some t"
proof (induction evs arbitrary: s)
  case Nil
  then show ?case by simp
next
  case (Cons e evs)
  have "firstPlayerTime (step e s) = Some t"
  proof (cases "successfulAdd e")
    case True
    then obtain playerName now rnd where "e = AddPlayer playerName now rnd" "truthy playerName"
      by (cases e) auto
    with Cons.prems show ?thesis
      by (simp add: firstPlayerTime_addPlayer)
  next
    case False
    with Cons.prems show ?thesis
      by (simp add: step_firstPlayerTime_other)
  qed
  with Cons show ?case by simp
qed

text \<open>
  Claim C6. \<open>firstPlayerTime\<close> is null in the initial state and after every
  \<open>resetAllPlayers\<close>, and stays null as long as no player is added (whatever else
  happens: \<open>evs1\<close>). The first successful \<open>addPlayer\<close> then sets it to the elapsed time
  of that moment, \<open>floor ((now - startTime) / 1000)\<close>. From then on, until the next
  reset, it keeps that value whatever happens (\<open>evs2\<close>), further successful additions
  included.
\<close>

theorem firstPlayerTime_lifecycle:
  assumes "s0 = initial t0 \<or> s0 = resetAllPlayers t0 s"
    and "\<forall>e \<in> set evs1. \<not> successfulAdd e"
    and "truthy playerName"
    and "\<forall>e \<in> set evs2. \<not> isReset e"
  shows "firstPlayerTime s0 = None \<and>
         firstPlayerTime (run s0 evs1) = None \<and>
         firstPlayerTime (run s0 (evs1 @ [AddPlayer playerName now rnd])) =
           Some (currentElapsedTime now (run s0 evs1)) \<and>
         firstPlayerTime (run s0 (evs1 @ AddPlayer playerName now rnd # evs2)) =
           Some (currentElapsedTime now (run s0 evs1))"
proof -
  from assms(1) have a: "firstPlayerTime s0 = None"
    by (auto simp: initial_def resetAllPlayers_def)
  then have b: "firstPlayerTime (run s0 evs1) = None"
    using assms(2) by (rule run_no_add_None)
  have c: "firstPlayerTime (step (AddPlayer playerName now rnd) (run s0 evs1)) =
           Some (currentElapsedTime now (run s0 evs1))"
    using b assms(3) by (simp add: firstPlayerTime_addPlayer)
  have d: "firstPlayerTime (run (step (AddPlayer playerName now rnd) (run s0 evs1)) evs2) =
           Some (currentElapsedTime now (run s0 evs1))"
    using c assms(4) by (rule run_no_reset_Some)
  from a b c d show ?thesis
    by (simp add: run_append)
qed

theorem firstPlayerTime_lifecycle_witness:
  "list_all (\<lambda>e. \<not> successfulAdd e) [Tick 11000 11000, AddPlayer (Some []) 11500 0] \<and>
   truthy (Some (js ''Carol'')) \<and>
   list_all (\<lambda>e. \<not> isReset e) [IncrementPlayer 3 13000, AddPlayer (Some (js ''Dave'')) 15000 1] \<and>
   firstPlayerTime (resetAllPlayers 9000 (run (initial 0) scenario)) = None \<and>
   firstPlayerTime
     (run (resetAllPlayers 9000 (run (initial 0) scenario))
        ([Tick 11000 11000, AddPlayer (Some []) 11500 0] @
         AddPlayer (Some (js ''Carol'')) 12000 7 #
         [IncrementPlayer 3 13000, AddPlayer (Some (js ''Dave'')) 15000 1])) = Some 3"
proof -
  have h2: "\<forall>e \<in> set [Tick 11000 11000, AddPlayer (Some []) 11500 0]. \<not> successfulAdd e"
    by simp
  have h3: "truthy (Some (js ''Carol''))"
    by simp
  have h4: "\<forall>e \<in> set [IncrementPlayer 3 13000, AddPlayer (Some (js ''Dave'')) 15000 1]. \<not> isReset e"
    by simp
  have cet: "currentElapsedTime 12000
               (run (resetAllPlayers 9000 (run (initial 0) scenario))
                  [Tick 11000 11000, AddPlayer (Some []) 11500 0]) = 3"
    by (simp add: currentElapsedTime_def resetAllPlayers_def tick_def
        updateAllPlayersWithTime_def)
  from firstPlayerTime_lifecycle [OF disjI2 [OF refl] h2 h3 h4, of 9000 "run (initial 0) scenario"
      12000 7]
  show ?thesis
    using h3 by (simp only: cet) simp
qed

section \<open>The order of the points of a series\<close>

lemma tailOk_append: "tailOk b ps \<Longrightarrow> b \<le> x \<Longrightarrow> tailOk x (ps @ [(x, y)])"
  by (cases ps) (auto simp: tailOk_def sorted_append)

lemma tailOk_mono: "tailOk b ps \<Longrightarrow> b \<le> c \<Longrightarrow> tailOk c ps"
  by (auto simp: tailOk_def)

lemma fullOk_append: "fullOk b ps \<Longrightarrow> b \<le> x \<Longrightarrow> fullOk x (ps @ [(x, y)])"
  by (auto simp: fullOk_def sorted_append)

lemma fullOk_mono: "fullOk b ps \<Longrightarrow> b \<le> c \<Longrightarrow> fullOk c ps"
  by (auto simp: fullOk_def)

lemma cet_mono: "t \<le> t' \<Longrightarrow> (t - a) div 1000 \<le> (t' - a) div (1000::int)"
  by (rule zdiv_mono1) simp_all

lemma currentElapsedTime_mono: "t \<le> t' \<Longrightarrow> currentElapsedTime t s \<le> currentElapsedTime t' s"
  unfolding currentElapsedTime_def by (rule cet_mono)

text \<open>With a clock that does not run backwards, every handler keeps the points after the
  first of each series in order, and below the elapsed time of the latest reading.\<close>

lemma tailInv_step:
  assumes "tailInv t s" and "sorted (t # clockReadings e)"
  shows "tailInv (last (t # clockReadings e)) (step e s)"
proof (cases e)
  case (AddPlayer playerName now rnd)
  show ?thesis
  proof (cases "truthy playerName")
    case True
    with assms(2) AddPlayer have le: "t \<le> now" by simp
    have old: "\<forall>p \<in> set (players s). tailOk (currentElapsedTime now s) (dataPoints p)"
      using assms(1) currentElapsedTime_mono [OF le]
      by (auto simp: tailInv_def intro: tailOk_mono)
    from True AddPlayer old show ?thesis
      by (auto simp: tailInv_def players_addPlayer tailOk_def)
  next
    case False
    with assms AddPlayer show ?thesis
      by (simp add: addPlayer_falsy)
  qed
next
  case (RemovePlayer i)
  with assms show ?thesis
    by (auto simp: tailInv_def removePlayer_def currentElapsedTime_def)
next
  case (IncrementPlayer i now)
  with assms show ?thesis
    by (auto simp: tailInv_def incrementPlayer_def updateAllPlayersWithTime_def
        currentElapsedTime_def intro!: tailOk_append cet_mono)
next
  case (DecrementPlayer i now)
  with assms show ?thesis
    by (auto simp: tailInv_def decrementPlayer_def updateAllPlayersWithTime_def
        currentElapsedTime_def intro!: tailOk_append cet_mono)
next
  case (ChangePlayerColor i c)
  with assms show ?thesis
    by (auto simp: tailInv_def changePlayerColor_def currentElapsedTime_def)
next
  case (ResetAllPlayers now)
  with assms show ?thesis
    by (auto simp: tailInv_def resetAllPlayers_def tailOk_def)
next
  case (Tick now1 now2)
  with assms have le: "t \<le> now1" "now1 \<le> now2" by simp_all
  have "\<forall>p \<in> set (players s).
          tailOk (currentElapsedTime now2 s)
            (dataPoints p @ [(currentElapsedTime now1 s, yValue p)])"
    using assms(1) le
    by (auto simp: tailInv_def intro!: tailOk_mono [OF tailOk_append] currentElapsedTime_mono)
  with Tick show ?thesis
    by (auto simp: tailInv_def tick_def updateAllPlayersWithTime_def currentElapsedTime_def)
next
  case ExportToJson
  with assms show ?thesis by simp
qed

text \<open>The same for whole series, of the players with an id from \<open>n\<close> on, as long as the
  event is not a reset.\<close>

lemma fullInv_step:
  assumes "fullInv n t s" and "sorted (t # clockReadings e)" and "\<not> isReset e"
  shows "fullInv n (last (t # clockReadings e)) (step e s)"
proof (cases e)
  case (AddPlayer playerName now rnd)
  show ?thesis
  proof (cases "truthy playerName")
    case True
    with assms(2) AddPlayer have le: "t \<le> now" by simp
    have old: "\<forall>p \<in> set (players s). n \<le> id_p p \<longrightarrow>
                 fullOk (currentElapsedTime now s) (dataPoints p)"
      using assms(1) currentElapsedTime_mono [OF le]
      by (auto simp: fullInv_def intro: fullOk_mono)
    from True AddPlayer old show ?thesis
      by (auto simp: fullInv_def players_addPlayer fullOk_def)
  next
    case False
    with assms AddPlayer show ?thesis
      by (simp add: addPlayer_falsy)
  qed
next
  case (RemovePlayer i)
  with assms show ?thesis
    by (auto simp: fullInv_def removePlayer_def currentElapsedTime_def)
next
  case (IncrementPlayer i now)
  with assms show ?thesis
    by (auto simp: fullInv_def incrementPlayer_def updateAllPlayersWithTime_def
        currentElapsedTime_def intro!: fullOk_append cet_mono)
next
  case (DecrementPlayer i now)
  with assms show ?thesis
    by (auto simp: fullInv_def decrementPlayer_def updateAllPlayersWithTime_def
        currentElapsedTime_def intro!: fullOk_append cet_mono)
next
  case (ChangePlayerColor i c)
  with assms show ?thesis
    by (auto simp: fullInv_def changePlayerColor_def currentElapsedTime_def)
next
  case (ResetAllPlayers now)
  with assms show ?thesis by simp
next
  case (Tick now1 now2)
  with assms have le: "t \<le> now1" "now1 \<le> now2" by simp_all
  have "\<forall>p \<in> set (players s). n \<le> id_p p \<longrightarrow>
          fullOk (currentElapsedTime now2 s)
            (dataPoints p @ [(currentElapsedTime now1 s, yValue p)])"
    using assms(1) le
    by (auto simp: fullInv_def intro!: fullOk_mono [OF fullOk_append] currentElapsedTime_mono)
  with Tick show ?thesis
    by (auto simp: fullInv_def tick_def updateAllPlayersWithTime_def currentElapsedTime_def)
next
  case ExportToJson
  with assms show ?thesis by simp
qed

lemma tailInv_run:
  "tailInv t s \<Longrightarrow> clockOk t evs \<Longrightarrow> tailInv (clockAfter t evs) (run s evs)"
proof (induction evs arbitrary: t s)
  case Nil
  then show ?case by simp
next
  case (Cons e evs)
  from Cons.prems(2) have ok: "sorted (t # clockReadings e)"
    and rest: "clockOk (last (t # clockReadings e)) evs"
    unfolding clockOk.simps by blast+
  have "tailInv (last (t # clockReadings e)) (step e s)"
    using Cons.prems(1) ok by (rule tailInv_step)
  then have "tailInv (clockAfter (last (t # clockReadings e)) evs) (run (step e s) evs)"
    using rest by (rule Cons.IH)
  then show ?case
    by (simp only: run.simps clockAfter.simps)
qed

lemma fullInv_run:
  "fullInv n t s \<Longrightarrow> clockOk t evs \<Longrightarrow> \<forall>e \<in> set evs. \<not> isReset e \<Longrightarrow>
   fullInv n (clockAfter t evs) (run s evs)"
proof (induction evs arbitrary: t s)
  case Nil
  then show ?case by simp
next
  case (Cons e evs)
  from Cons.prems(2) have ok: "sorted (t # clockReadings e)"
    and rest: "clockOk (last (t # clockReadings e)) evs"
    unfolding clockOk.simps by blast+
  from Cons.prems(3) have nr: "\<not> isReset e" and nrs: "\<forall>e \<in> set evs. \<not> isReset e"
    by simp_all
  have "fullInv n (last (t # clockReadings e)) (step e s)"
    using Cons.prems(1) ok nr by (rule fullInv_step)
  then have "fullInv n (clockAfter (last (t # clockReadings e)) evs) (run (step e s) evs)"
    using rest nrs by (rule Cons.IH)
  then show ?case
    by (simp only: run.simps clockAfter.simps)
qed

lemma clockOk_append:
  "clockOk t (xs @ ys) = (clockOk t xs \<and> clockOk (clockAfter t xs) ys)"
  by (induction xs arbitrary: t) auto

text \<open>
  Claim C8. The x-coordinates of a series are not always in order. \<open>resetAllPlayers\<close>
  leaves in each series one point at the old \<open>firstPlayerTime\<close> and sets the origin of the
  clock to the moment of the reset, so the points appended afterwards start again near 0:
  with Alice added after 100 seconds, a reset after 200 seconds and a tick two seconds
  later, on a clock that only moves forward, her series is \<open>[(100, 0), (2, 0)]\<close>.
\<close>

theorem reset_series_counterexample:
  "clockOk 0 resetSession \<and>
   map dataPoints (players (run (initial 0) resetSession)) = [[(100, 0), (2, 0)]] \<and>
   \<not> sorted (map fst (dataPoints (hd (players (run (initial 0) resetSession)))))"
  by (simp add: resetSession_def initial_def addPlayer_def resetAllPlayers_def tick_def
      updateAllPlayersWithTime_def currentElapsedTime_def)

text \<open>
  Claim C8, as amended. On a clock that does not run backwards, in every state reached from
  the initial one, the x-coordinates of every series are non-decreasing from the second
  point on; and the whole series of a player is non-decreasing when no reset has happened
  since that player was added (the events \<open>evs2\<close> contain no reset, and the player's id
  was given during \<open>evs2\<close>, that is, it is not below \<open>nextPlayerId\<close> at the end of
  \<open>evs1\<close>).
\<close>

theorem series_nondecreasing:
  assumes "clockOk t0 (evs1 @ evs2)" and "\<forall>e \<in> set evs2. \<not> isReset e"
  shows "\<forall>p \<in> set (players (run (initial t0) (evs1 @ evs2))).
           sorted (map fst (tl (dataPoints p))) \<and>
           (nextPlayerId (run (initial t0) evs1) \<le> id_p p \<longrightarrow>
              sorted (map fst (dataPoints p)))"
proof -
  let ?s1 = "run (initial t0) evs1"
  have "tailInv t0 (initial t0)"
    by (simp add: tailInv_def initial_def)
  then have tail: "tailInv (clockAfter t0 (evs1 @ evs2)) (run (initial t0) (evs1 @ evs2))"
    using assms(1) by (rule tailInv_run)
  have "idsBelow ?s1"
    by (rule idsBelow_run [OF idsBelow_initial])
  then have "fullInv (nextPlayerId ?s1) (clockAfter t0 evs1) ?s1"
    by (fastforce simp: fullInv_def idsBelow_def)
  moreover from assms(1) have "clockOk (clockAfter t0 evs1) evs2"
    by (simp add: clockOk_append)
  ultimately
  have "fullInv (nextPlayerId ?s1) (clockAfter (clockAfter t0 evs1) evs2) (run ?s1 evs2)"
    using assms(2) by (rule fullInv_run)
  then have full: "fullInv (nextPlayerId ?s1) (clockAfter (clockAfter t0 evs1) evs2)
                     (run (initial t0) (evs1 @ evs2))"
    by (simp add: run_append)
  from tail full show ?thesis
    by (auto simp: tailInv_def fullInv_def tailOk_def fullOk_def)
qed

theorem series_nondecreasing_witness:
  "clockOk 0 (resetSession @ scenario_later) \<and>
   list_all (\<lambda>e. \<not> isReset e) scenario_later \<and>
   nextPlayerId (run (initial 0) resetSession) = 2 \<and>
   map id_p (players (run (initial 0) (resetSession @ scenario_later))) = [1, 2] \<and>
   map dataPoints (players (run (initial 0) (resetSession @ scenario_later))) =
     [[(100, 0), (2, 0), (7, 0)], [(5, 0), (7, 1)]] \<and>
   list_all (\<lambda>p. sorted (map fst (tl (dataPoints p))) \<and>
                 (2 \<le> id_p p \<longrightarrow> sorted (map fst (dataPoints p))))
     (players (run (initial 0) (resetSession @ scenario_later)))"
proof -
  have h1: "clockOk 0 (resetSession @ scenario_later)"
    by (simp add: resetSession_def scenario_later_def)
  have h2: "\<forall>e \<in> set scenario_later. \<not> isReset e"
    by (simp add: scenario_later_def)
  have n: "nextPlayerId (run (initial 0) resetSession) = 2"
    by (simp add: resetSession_def initial_def addPlayer_def resetAllPlayers_def tick_def
        updateAllPlayersWithTime_def)
  have st: "map id_p (players (run (initial 0) (resetSession @ scenario_later))) = [1, 2]"
    "map dataPoints (players (run (initial 0) (resetSession @ scenario_later))) =
       [[(100, 0), (2, 0), (7, 0)], [(5, 0), (7, 1)]]"
    by (simp_all add: resetSession_def scenario_later_def initial_def addPlayer_def
        resetAllPlayers_def tick_def incrementPlayer_def updateAllPlayersWithTime_def
        currentElapsedTime_def)
  from series_nondecreasing [OF h1 h2] show ?thesis
    using h1 h2 st by (simp only: n list_all_iff)
qed


section \<open>The export: parsing what was serialized\<close>

subsection \<open>Code units\<close>

lemma unat_cu [simp]: "unat (cu c) = of_char c"
proof -
  have "(of_char c :: nat) < 65536"
    using nat_of_char_less_256 [of c] by linarith
  then show ?thesis
    by (simp add: cu_def unat_of_nat)
qed

lemma eq_cu_iff: "(x = cu k) = (unat x = of_char k)"
  by (simp add: word_unat_eq_iff)

lemma cu_eq_iff [simp]: "(cu a = cu b) = (a = b)"
  by (simp add: eq_cu_iff)

lemma unat_codeUnit_less: "unat (c :: codeUnit) < 65536"
  using unsigned_less [of c, where ?'a = nat] by simp

lemma of_nat_unat_codeUnit: "of_nat (unat (c :: codeUnit)) = c"
  by simp

lemma js_Cons [simp]: "js (c # cs) = cu c # js cs"
  by (simp add: js_def)

lemma js_Nil [simp]: "js [] = []"
  by (simp add: js_def)

lemma js_append [simp]: "js (a @ b) = js a @ js b"
  by (simp add: js_def)

lemma length_js [simp]: "length (js s) = length s"
  by (simp add: js_def)

lemma isWs_cu [simp]:
  "isWs (cu c) = (c = CHR 0x09 \<or> c = CHR 0x0A \<or> c = CHR 0x0D \<or> c = CHR 0x20)"
  by (simp add: isWs_def)

lemma skipWs_indentOf [simp]: "skipWs (indentOf d @ cs) = skipWs cs"
proof -
  have "skipWs (replicate n (cu CHR '' '') @ cs) = skipWs cs" for n
    by (induction n) simp_all
  then show ?thesis by (simp add: indentOf_def)
qed

subsection \<open>Numbers\<close>

lemma isDigit_cu: "isDigit (cu c) = (48 \<le> (of_char c :: nat) \<and> (of_char c :: nat) \<le> 57)"
  by (simp add: isDigit_def)

lemma isDigit_char_of: "n < 10 \<Longrightarrow> isDigit (cu (char_of (48 + n :: nat)))"
  by (simp add: isDigit_cu)

lemma toDigits_isDigit: "c \<in> set (toDigits n) \<Longrightarrow> isDigit (cu c)"
proof (induction n arbitrary: c rule: toDigits.induct)
  case (1 n)
  show ?case
  proof (cases "n < 10")
    case True
    with "1.prems" show ?thesis
      by (simp add: toDigits.simps [of n] isDigit_char_of)
  next
    case False
    with "1.prems" "1.IH" show ?thesis
      by (auto simp: toDigits.simps [of n] isDigit_char_of)
  qed
qed

lemma toDigits_nonempty [simp]: "toDigits n \<noteq> []"
  by (subst toDigits.simps) simp

lemma digitsValue_snoc:
  "digitsValue (ds @ [c]) = 10 * digitsValue ds + (unat c - 48)"
  by (simp add: digitsValue_def)

lemma digitsValue_toDigits: "digitsValue (js (toDigits n)) = n"
proof (induction n rule: toDigits.induct)
  case (1 n)
  show ?case
  proof (cases "n < 10")
    case True
    then show ?thesis
      by (simp add: toDigits.simps [of n] digitsValue_def)
  next
    case False
    then have "digitsValue (js (toDigits n)) =
               10 * digitsValue (js (toDigits (n div 10))) + n mod 10"
      by (simp add: toDigits.simps [of n] digitsValue_snoc)
    with False "1.IH" show ?thesis by simp
  qed
qed

lemma hd_toDigits: "0 < n \<Longrightarrow> hd (toDigits n) \<noteq> CHR ''0''"
proof (induction n rule: toDigits.induct)
  case (1 n)
  show ?case
  proof (cases "n < 10")
    case True
    have "(of_char (char_of (48 + n) :: char) :: nat) \<noteq> of_char CHR ''0''"
      using True "1.prems" by simp
    then have "char_of (48 + n) \<noteq> CHR ''0''"
      by (simp only: of_char_eq_iff not_False_eq_True)
    with True show ?thesis
      by (simp add: toDigits.simps [of n])
  next
    case False
    then have "hd (toDigits n) = hd (toDigits (n div 10))"
      by (simp add: toDigits.simps [of n])
    with False "1.IH" show ?thesis by simp
  qed
qed

lemma toDigits_leading:
  "hd (toDigits n) = CHR ''0'' \<Longrightarrow> length (toDigits n) = 1"
proof (cases "n = 0")
  case True
  then show ?thesis by (simp add: toDigits.simps [of 0])
next
  case False
  assume "hd (toDigits n) = CHR ''0''"
  with False hd_toDigits [of n] show ?thesis by simp
qed

lemma hd_js: "s \<noteq> [] \<Longrightarrow> hd (js s) = cu (hd s)"
  by (cases s) simp_all

lemma takeWhile_digits:
  "\<forall>c \<in> set ds. isDigit c \<Longrightarrow> rest = [] \<or> \<not> isDigit (hd rest) \<Longrightarrow>
   takeWhile isDigit (ds @ rest) = ds \<and> dropWhile isDigit (ds @ rest) = rest"
  by (cases rest) (simp_all add: takeWhile_append2 dropWhile_append2)

lemma parseNumber_digits:
  assumes "numEnd rest"
  shows "parseNumber (js (toDigits n) @ rest) = Some (int n, rest)"
    and "parseNumber (cu CHR ''-'' # js (toDigits n) @ rest) = Some (- int n, rest)"
proof -
  let ?ds = "js (toDigits n)"
  have d: "\<forall>c \<in> set ?ds. isDigit c"
    using toDigits_isDigit by (auto simp: js_def)
  from assms have e: "rest = [] \<or> \<not> isDigit (hd rest)"
    by (auto simp: numEnd_def)
  have ne: "?ds \<noteq> []"
    by simp
  have hd: "hd ?ds = cu (hd (toDigits n))"
    by (simp add: hd_js)
  have "isDigit (hd ?ds)"
    using d ne by simp
  then have nm: "hd ?ds \<noteq> cu CHR ''-''"
    by (auto simp: isDigit_def)
  have tw: "takeWhile isDigit (?ds @ rest) = ?ds" "dropWhile isDigit (?ds @ rest) = rest"
    using takeWhile_digits [OF d e] by simp_all
  have lead: "\<not> (hd ?ds = cu CHR ''0'' \<and> length ?ds > 1)"
    using toDigits_leading [of n] by (auto simp: hd)
  from assms
  have tail: "\<not> (rest \<noteq> [] \<and>
                (hd rest = cu CHR ''.'' \<or> hd rest = cu CHR ''e'' \<or> hd rest = cu CHR ''E''))"
    by (auto simp: numEnd_def)
  have hdapp: "hd (?ds @ rest) = hd ?ds"
    using ne by simp
  show "parseNumber (?ds @ rest) = Some (int n, rest)"
    using nm lead tail ne
    by (simp add: parseNumber_def Let_def tw digitsValue_toDigits hdapp)
  show "parseNumber (cu CHR ''-'' # ?ds @ rest) = Some (- int n, rest)"
    using lead tail ne
    by (simp add: parseNumber_def Let_def tw digitsValue_toDigits)
qed

lemma parseNumber_numberToString:
  assumes "numEnd rest"
  shows "parseNumber (numberToString i @ rest) = Some (i, rest)"
  using parseNumber_digits [OF assms, of "nat i"] parseNumber_digits [OF assms, of "nat (- i)"]
  by (cases "i < 0") (simp_all add: numberToString_def)

subsection \<open>Strings\<close>

lemma nat_less_16_cases:
  "d < 16 \<Longrightarrow>
   d = 0 \<or> d = 1 \<or> d = 2 \<or> d = 3 \<or> d = 4 \<or> d = 5 \<or> d = 6 \<or> d = 7 \<or> d = 8 \<or> d = 9 \<or>
   d = 10 \<or> d = 11 \<or> d = 12 \<or> d = 13 \<or> d = 14 \<or> d = (15::nat)"
  by arith

lemma hexValue_hexDigit:
  assumes "d < 16"
  shows "hexValue (cu (hexDigit d)) = Some d"
  using nat_less_16_cases [OF assms]
  by (elim disjE) (simp_all add: hexDigit_def hexValue_def)

lemma hex_digits_value:
  assumes "n < 65536"
  shows "4096 * (n div 4096 mod 16) + 256 * (n div 256 mod 16) + 16 * (n div 16 mod 16) +
         n mod 16 = (n::nat)"
proof -
  define a where "a = n div 16"
  define b where "b = a div 16"
  define c where "c = b div 16"
  have n: "n = 16 * a + n mod 16"
    by (simp add: a_def)
  have a: "a = 16 * b + a mod 16"
    by (simp add: b_def)
  have b: "b = 16 * c + b mod 16"
    by (simp add: c_def)
  have b256: "n div 256 = b"
    by (simp add: a_def b_def div_mult2_eq)
  have c4096: "n div 4096 = c"
    by (simp add: a_def b_def c_def div_mult2_eq)
  from assms have "c < 16"
    by (simp add: c4096 [symmetric])
  then have c: "c mod 16 = c"
    by simp
  have "4096 * c + 256 * (b mod 16) + 16 * (a mod 16) + n mod 16 = n"
    using n a b by linarith
  then show ?thesis
    by (simp only: b256 c4096 c a_def [symmetric])
qed

lemma parseChars_literal:
  assumes "c \<noteq> cu (CHR 0x22)" and "c \<noteq> cu (CHR 0x5C)" and "\<not> unat c < 0x20"
  shows "parseChars (c # cs) =
           (case parseChars cs of None \<Rightarrow> None | Some (s, r) \<Rightarrow> Some (c # s, r))"
  using assms by simp

lemma parseChars_unicodeEscape:
  "parseChars (unicodeEscape c @ cs) =
     (case parseChars cs of None \<Rightarrow> None | Some (s, r) \<Rightarrow> Some (c # s, r))"
proof -
  let ?n = "unat c"
  have h: "hexValue (cu (hexDigit (?n div 4096 mod 16))) = Some (?n div 4096 mod 16)"
    "hexValue (cu (hexDigit (?n div 256 mod 16))) = Some (?n div 256 mod 16)"
    "hexValue (cu (hexDigit (?n div 16 mod 16))) = Some (?n div 16 mod 16)"
    "hexValue (cu (hexDigit (?n mod 16))) = Some (?n mod 16)"
    by (simp_all add: hexValue_hexDigit)
  have v: "(of_nat (4096 * (?n div 4096 mod 16) + 256 * (?n div 256 mod 16) +
              16 * (?n div 16 mod 16) + ?n mod 16) :: codeUnit) = c"
    by (simp only: hex_digits_value [OF unat_codeUnit_less] of_nat_unat_codeUnit)
  have "parseChars (unicodeEscape c @ cs) =
          (case parseChars cs of
             None \<Rightarrow> None
           | Some (s, r) \<Rightarrow>
               Some (of_nat (4096 * (?n div 4096 mod 16) + 256 * (?n div 256 mod 16) +
                       16 * (?n div 16 mod 16) + ?n mod 16) # s, r))"
    unfolding unicodeEscape_def by (simp add: h del: of_nat_add of_nat_mult)
  then show ?thesis
    by (simp only: v)
qed

lemma parseChars_quoteChar:
  "parseChars (quoteChar c @ cs) =
     (case parseChars cs of None \<Rightarrow> None | Some (s, r) \<Rightarrow> Some (c # s, r))"
proof (cases "c = cu (CHR 0x08) \<or> c = cu (CHR 0x09) \<or> c = cu (CHR 0x0A) \<or>
      c = cu (CHR 0x0C) \<or> c = cu (CHR 0x0D) \<or> c = cu (CHR 0x22) \<or> c = cu (CHR 0x5C)")
  case True
  then show ?thesis
    by (elim disjE) (simp_all add: quoteChar_def unescape_def split: option.split)
next
  case False
  show ?thesis
  proof (cases "unat c < 0x20 \<or> isLeadingSurrogate c \<or> isTrailingSurrogate c")
    case True
    with False have "quoteChar c = unicodeEscape c"
      by (simp add: quoteChar_def)
    then show ?thesis
      by (simp add: parseChars_unicodeEscape)
  next
    case plain: False
    with False have "quoteChar c = [c]"
      by (simp add: quoteChar_def)
    with False plain show ?thesis
      by (simp add: parseChars_literal)
  qed
qed

lemma surrogate_literal:
  assumes "isLeadingSurrogate c \<or> isTrailingSurrogate c"
  shows "parseChars (c # cs) =
           (case parseChars cs of None \<Rightarrow> None | Some (s, r) \<Rightarrow> Some (c # s, r))"
proof (rule parseChars_literal)
  from assms have "0xD800 \<le> unat c"
    by (auto simp: isLeadingSurrogate_def isTrailingSurrogate_def)
  then show "c \<noteq> cu (CHR 0x22)" "c \<noteq> cu (CHR 0x5C)" "\<not> unat c < 0x20"
    by (simp_all add: eq_cu_iff)
qed

lemma parseChars_quoteUnits:
  "parseChars (quoteUnits s @ cu (CHR 0x22) # rest) = Some (s, rest)"
proof (induction s rule: quoteUnits.induct)
  case 1
  show ?case by simp
next
  case (2 c)
  show ?case
    by (simp add: parseChars_quoteChar del: parseChars.simps) simp
next
  case (3 c d cs)
  show ?case
  proof (cases "isLeadingSurrogate c \<and> isTrailingSurrogate d")
    case True
    with "3.IH"(1) show ?thesis
      by (simp add: surrogate_literal del: parseChars.simps)
  next
    case False
    then have "quoteUnits (c # d # cs) = quoteChar c @ quoteUnits (d # cs)"
      by auto
    with "3.IH"(2) [OF False] show ?thesis
      by (simp add: parseChars_quoteChar del: parseChars.simps quoteUnits.simps)
  qed
qed

subsection \<open>Values\<close>

lemma parse_skipWs_cong:
  assumes "skipWs a = skipWs b"
  shows "parseValue f a = parseValue f b"
    and "parseElements f a = parseElements f b"
    and "parseMembers f a = parseMembers f b"
proof -
  show v: "parseValue f a = parseValue f b" for f
    using assms by (cases f) simp_all
  show "parseElements f a = parseElements f b"
    by (cases f) (simp_all add: v)
  show "parseMembers f a = parseMembers f b"
    using assms by (cases f) simp_all
qed

lemma parse_newline_indent [simp]:
  "parseValue f (cu (CHR 0x0A) # indentOf d @ cs) = parseValue f cs"
  "parseElements f (cu (CHR 0x0A) # indentOf d @ cs) = parseElements f cs"
  "parseMembers f (cu (CHR 0x0A) # indentOf d @ cs) = parseMembers f cs"
  by (rule parse_skipWs_cong, simp)+

lemma parseValue_space [simp]: "parseValue f (cu CHR '' '' # cs) = parseValue f cs"
  by (rule parse_skipWs_cong) simp

lemma numEnd_simps [simp]:
  "numEnd []"
  "numEnd (cu (CHR 0x0A) # cs)"
  "numEnd (cu CHR '','' # cs)"
  by (simp_all add: numEnd_def isDigit_def)

lemma isDigit_hd_toDigits: "isDigit (cu (hd (toDigits n)))"
  by (rule toDigits_isDigit [of _ n]) simp

lemma numberToString_start:
  "\<exists>c r. numberToString i = c # r \<and> (isDigit c \<or> c = cu CHR ''-'')"
proof (cases "i < 0")
  case True
  then show ?thesis by (simp add: numberToString_def)
next
  case False
  obtain c r where cr: "toDigits (nat i) = c # r"
    by (cases "toDigits (nat i)") simp_all
  with isDigit_hd_toDigits [of "nat i"] have "isDigit (cu c)"
    by simp
  with False cr show ?thesis
    by (simp add: numberToString_def)
qed

lemma isDigit_valueStart: "isDigit c \<Longrightarrow> valueStart c"
  by (auto simp: isDigit_def valueStart_def isWs_def eq_cu_iff)

lemma Serialize_start: "\<exists>c r. SerializeJSONProperty d v = c # r \<and> valueStart c"
proof (cases v)
  case (JNumber i)
  from numberToString_start [of i] obtain c r
    where "numberToString i = c # r" "isDigit c \<or> c = cu CHR ''-''" by blast
  moreover have "valueStart (cu CHR ''-'')"
    by (simp add: valueStart_def )
  ultimately show ?thesis
    using JNumber isDigit_valueStart by auto
qed (simp_all add: valueStart_def QuoteJSONString_def)

lemma parseValue_number:
  assumes "isDigit c \<or> c = cu CHR ''-''"
  shows "parseValue (Suc f) (c # r) =
           (case parseNumber (c # r) of None \<Rightarrow> None | Some (i, r') \<Rightarrow> Some (JNumber i, r'))"
proof -
  from assms have "\<not> isWs c" "c \<noteq> cu (CHR 0x22)" "c \<noteq> cu CHR ''[''" "c \<noteq> cu CHR ''{''"
    "c \<noteq> cu CHR ''n''" "c \<noteq> cu CHR ''t''" "c \<noteq> cu CHR ''f''"
    by (auto simp: isDigit_def isWs_def eq_cu_iff)
  then show ?thesis by simp
qed


lemma valueStart_skipWs: "valueStart c \<Longrightarrow> skipWs (c # cs) = c # cs"
  by (simp add: valueStart_def)

lemma serializeElements_start:
  "vs \<noteq> [] \<Longrightarrow> \<exists>c r. serializeElements d vs = c # r \<and> valueStart c"
proof (cases vs)
  case Nil
  assume "vs \<noteq> []"
  with Nil show ?thesis by simp
next
  case (Cons v ws)
  from Serialize_start [of d v] obtain c r
    where "SerializeJSONProperty d v = c # r" "valueStart c" by blast
  with Cons show ?thesis
    by (cases ws) auto
qed

lemma serializeMembers_start:
  "ms \<noteq> [] \<Longrightarrow> \<exists>r. serializeMembers d ms = cu (CHR 0x22) # r"
proof (cases ms)
  case Nil
  assume "ms \<noteq> []"
  with Nil show ?thesis by simp
next
  case (Cons m ns)
  then show ?thesis
    by (cases m; cases ns) (auto simp: QuoteJSONString_def)
qed

lemma addMember_fresh:
  assumes "k \<notin> set (map fst ms)"
  shows "addMember k v ms = (k, v) # ms"
proof -
  from assms have "map_of ms k = None"
    by (simp add: map_of_eq_None_iff)
  then show ?thesis
    by (simp add: addMember_def)
qed

lemma parseElements_step:
  assumes "parseValue f (a @ b) = Some (v, b)" and "skipWs b = c # r"
  shows "parseElements (Suc f) (a @ b) =
           (if c = cu CHR '','' then
              (case parseElements f r of None \<Rightarrow> None | Some (vs, r') \<Rightarrow> Some (v # vs, r'))
            else if c = cu CHR '']'' then Some ([v], r) else None)"
  using assms by simp

lemma parseMembers_step:
  assumes "parseValue f (a @ b) = Some (v, b)" and "skipWs b = c # r"
  shows "parseMembers (Suc f) (QuoteJSONString k @ js '': '' @ a @ b) =
           (if c = cu CHR '','' then
              (case parseMembers f r of None \<Rightarrow> None | Some (ms, r') \<Rightarrow> Some (addMember k v ms, r'))
            else if c = cu CHR ''}'' then Some ([(k, v)], r) else None)"
proof -
  have "QuoteJSONString k @ js '': '' @ a @ b =
        cu (CHR 0x22) # quoteUnits k @ cu (CHR 0x22) # cu CHR '':'' # cu CHR '' '' # a @ b"
    by (simp add: QuoteJSONString_def)
  then show ?thesis
    using assms by (simp add: parseChars_quoteUnits)
qed

lemma parse_Serialize:
  "size v < f \<Longrightarrow> numEnd rest \<Longrightarrow> distinctNames v \<Longrightarrow>
   parseValue f (SerializeJSONProperty d v @ rest) = Some (v, rest)"
  "vs \<noteq> [] \<Longrightarrow> size_list size vs < f \<Longrightarrow> distinctNamesElements vs \<Longrightarrow>
   parseElements f (serializeElements d vs @ cu (CHR 0x0A) # indentOf d' @ cu CHR '']'' # rest) =
     Some (vs, rest)"
  "ms \<noteq> [] \<Longrightarrow> size_list (size_prod (\<lambda>x. 0) size) ms < f \<Longrightarrow> distinct (map fst ms) \<Longrightarrow>
   distinctNamesMembers ms \<Longrightarrow>
   parseMembers f (serializeMembers d ms @ cu (CHR 0x0A) # indentOf d' @ cu CHR ''}'' # rest) =
     Some (ms, rest)"
proof (induction d v and d vs and d ms arbitrary: f rest and f d' rest and f d' rest
    rule: SerializeJSONProperty_serializeElements_serializeMembers.induct)
  case (1 d)
  then show ?case
    by (cases f) simp_all
next
  case (2 d b)
  then show ?case
    by (cases f; cases b) simp_all
next
  case (3 d i)
  from "3.prems" obtain f' where f: "f = Suc f'"
    by (cases f) simp_all
  from numberToString_start [of i] obtain c r
    where cr: "numberToString i = c # r" and c: "isDigit c \<or> c = cu CHR ''-''" by blast
  have eq: "c # r @ rest = numberToString i @ rest"
    by (simp add: cr)
  have "parseValue (Suc f') (c # r @ rest) =
          (case parseNumber (c # r @ rest) of
             None \<Rightarrow> None
           | Some (i, r') \<Rightarrow> Some (JNumber i, r'))"
    by (rule parseValue_number [OF c])
  also have "\<dots> = Some (JNumber i, rest)"
    using "3.prems" by (simp only: eq parseNumber_numberToString) simp
  finally show ?case
    by (simp only: f eq SerializeJSONProperty.simps)
next
  case (4 d s)
  then show ?case
    by (cases f) (simp_all add: QuoteJSONString_def parseChars_quoteUnits)
next
  case (5 d vs)
  from "5.prems" obtain f' where f: "f = Suc f'"
    by (cases f) simp_all
  show ?case
  proof (cases "vs = []")
    case True
    then show ?thesis
      by (simp add: f )
  next
    case False
    from serializeElements_start [OF False, of "Suc d"] obtain c r
      where cr: "serializeElements (Suc d) vs = c # r" and c: "valueStart c" by blast
    from "5.prems" False
    have "parseElements f'
            (serializeElements (Suc d) vs @ cu (CHR 0x0A) # indentOf d @ cu CHR '']'' # rest) =
          Some (vs, rest)"
      by (intro "5.IH") (simp_all add: f)
    with False c show ?thesis
      by (simp add: f cr valueStart_def)
  qed
next
  case (6 d ms)
  from "6.prems" obtain f' where f: "f = Suc f'"
    by (cases f) simp_all
  show ?case
  proof (cases "ms = []")
    case True
    then show ?thesis
      by (simp add: f )
  next
    case False
    from serializeMembers_start [OF False, of "Suc d"] obtain r
      where cr: "serializeMembers (Suc d) ms = cu (CHR 0x22) # r" by blast
    from "6.prems" False
    have "parseMembers f'
            (serializeMembers (Suc d) ms @ cu (CHR 0x0A) # indentOf d @ cu CHR ''}'' # rest) =
          Some (ms, rest)"
      by (intro "6.IH") (simp_all add: f)
    with False show ?thesis
      by (simp add: f cr)
  qed
next
  case (7 d)
  then show ?case by simp
next
  case (8 d v)
  from "8.prems" obtain f' where f: "f = Suc f'"
    by (cases f) simp_all
  let ?b = "cu (CHR 0x0A) # indentOf d' @ cu CHR '']'' # rest"
  have pv: "parseValue f' (SerializeJSONProperty d v @ ?b) = Some (v, ?b)"
    using "8.prems" by (intro "8.IH") (simp_all add: f)
  have sk: "skipWs ?b = cu CHR '']'' # rest"
    by simp
  from parseElements_step [OF pv sk] show ?case
    by (simp add: f del: parseElements.simps)
next
  case (9 d v w vs)
  from "9.prems" obtain f' where f: "f = Suc f'"
    by (cases f) simp_all
  let ?t = "serializeElements d (w # vs) @ cu (CHR 0x0A) # indentOf d' @ cu CHR '']'' # rest"
  let ?b = "cu CHR '','' # cu (CHR 0x0A) # indentOf d @ ?t"
  have pv: "parseValue f' (SerializeJSONProperty d v @ ?b) = Some (v, ?b)"
    using "9.prems" by (intro "9.IH"(1)) (simp_all add: f)
  have sk: "skipWs ?b = cu CHR '','' # cu (CHR 0x0A) # indentOf d @ ?t"
    by simp
  have tl: "parseElements f' ?t = Some (w # vs, rest)"
    using "9.prems" by (intro "9.IH"(2)) (simp_all add: f)
  from parseElements_step [OF pv sk] tl show ?case
    by (simp add: f del: parseElements.simps)
next
  case (10 d)
  then show ?case by simp
next
  case (11 d k v)
  from "11.prems" obtain f' where f: "f = Suc f'"
    by (cases f) simp_all
  let ?b = "cu (CHR 0x0A) # indentOf d' @ cu CHR ''}'' # rest"
  have pv: "parseValue f' (SerializeJSONProperty d v @ ?b) = Some (v, ?b)"
    using "11.prems" by (intro "11.IH") (simp_all add: f)
  have sk: "skipWs ?b = cu CHR ''}'' # rest"
    by simp
  from parseMembers_step [OF pv sk, of k] show ?case
    by (simp add: f del: parseMembers.simps)
next
  case (12 d k v m ms)
  from "12.prems" obtain f' where f: "f = Suc f'"
    by (cases f) simp_all
  let ?t = "serializeMembers d (m # ms) @ cu (CHR 0x0A) # indentOf d' @ cu CHR ''}'' # rest"
  let ?b = "cu CHR '','' # cu (CHR 0x0A) # indentOf d @ ?t"
  have pv: "parseValue f' (SerializeJSONProperty d v @ ?b) = Some (v, ?b)"
    using "12.prems" by (intro "12.IH"(1)) (simp_all add: f)
  have sk: "skipWs ?b = cu CHR '','' # cu (CHR 0x0A) # indentOf d @ ?t"
    by simp
  have tl: "parseMembers f' ?t = Some (m # ms, rest)"
    using "12.prems" by (intro "12.IH"(2)) (simp_all add: f)
  have am: "addMember k v (m # ms) = (k, v) # m # ms"
    using "12.prems" by (intro addMember_fresh) simp
  from parseMembers_step [OF pv sk, of k] tl am show ?case
    by (simp add: f del: parseMembers.simps)
qed


lemma length_QuoteJSONString: "2 \<le> length (QuoteJSONString k)"
  by (simp add: QuoteJSONString_def)

lemma size_le_length:
  "size v \<le> length (SerializeJSONProperty d v)"
  "size_list size vs \<le> length (serializeElements d vs) + 1"
  "size_list (size_prod (\<lambda>x. 0) size) ms \<le> length (serializeMembers d ms) + 1"
proof (induction d v and d vs and d ms
    rule: SerializeJSONProperty_serializeElements_serializeMembers.induct)
  case (11 d k v)
  with length_QuoteJSONString [of k] show ?case by simp
next
  case (12 d k v m ms)
  with length_QuoteJSONString [of k] show ?case by simp
qed auto

lemma JSON_roundtrip:
  assumes "distinctNames v"
  shows "JSON_parse (JSON_stringify v) = Some v"
proof -
  have "size v < 2 * length (SerializeJSONProperty 0 v) + 2"
    using size_le_length(1) [of v 0] by simp
  then have "parseValue (2 * length (SerializeJSONProperty 0 v) + 2)
               (SerializeJSONProperty 0 v @ []) = Some (v, [])"
    using assms by (intro parse_Serialize(1)) simp_all
  then show ?thesis
    by (simp add: JSON_parse_def JSON_stringify_def)
qed

subsection \<open>The exported object\<close>

lemma distinctNames_points: "distinctNamesElements (map exportPoint pts)"
  by (induction pts) (simp_all add: exportPoint_def)

lemma distinctNames_players: "distinctNamesElements (map exportPlayer ps)"
  by (induction ps) (simp_all add: exportPlayer_def distinctNames_points)

lemma distinctNames_exportData: "distinctNames (exportData s)"
  by (simp add: exportData_def distinctNames_players)

lemma readPoints: "allSome (map (\<lambda>pt. readPoint (exportPoint pt)) pts) = Some pts"
  by (induction pts) (simp_all add: exportPoint_def)

lemma readPlayer_exportPlayer:
  "readPlayer (exportPlayer p) = Some (id_p p, name p, color p, dataPoints p)"
  by (simp add: readPlayer_def exportPlayer_def comp_def readPoints)

lemma readPlayers:
  "allSome (map (\<lambda>p. readPlayer (exportPlayer p)) ps) =
   Some (map (\<lambda>p. (id_p p, name p, color p, dataPoints p)) ps)"
  by (induction ps) (simp_all add: readPlayer_exportPlayer)

lemma readExport_exportData:
  "readExport (exportData s) =
     Some (elapsedTime s, map (\<lambda>p. (id_p p, name p, color p, dataPoints p)) (players s))"
  by (simp add: readExport_def exportData_def comp_def readPlayers)

lemma exportData_shape:
  "exportData s =
     JObject
       [(js ''elapsedTime'', JNumber (elapsedTime s)),
        (js ''players'',
         JArray
           (map (\<lambda>p. JObject
                    [(js ''id'', JNumber (id_p p)),
                     (js ''name'', JString (name p)),
                     (js ''color'', JString (color p)),
                     (js ''dataPoints'',
                      JArray (map (\<lambda>pt. JArray [JNumber (fst pt), JNumber (snd pt)])
                                (dataPoints p)))])
              (players s)))]"
  unfolding exportData_def exportPlayer_def [abs_def] exportPoint_def [abs_def] ..

text \<open>
  Claim C7. For every state, whatever code units the names and colours hold, the text that
  \<open>exportToJson\<close> produces parses, and it parses to an object with exactly the
  properties \<^verbatim>\<open>elapsedTime\<close> and \<^verbatim>\<open>players\<close>, the latter an array with one object for
  each player in the order of the list, each with exactly the properties \<^verbatim>\<open>id\<close>,
  \<^verbatim>\<open>name\<close>, \<^verbatim>\<open>color\<close> and \<^verbatim>\<open>dataPoints\<close>, an array of two-element arrays; the values
  are the \<open>elapsedTime\<close> of the state and the id, name, colour and series of the player.
  Reading the parsed object property by property gives these values back. The handler
  leaves the state as it is.
\<close>

theorem export_roundtrip:
  "JSON_parse (exportToJson s) =
     Some (JObject
       [(js ''elapsedTime'', JNumber (elapsedTime s)),
        (js ''players'',
         JArray
           (map (\<lambda>p. JObject
                    [(js ''id'', JNumber (id_p p)),
                     (js ''name'', JString (name p)),
                     (js ''color'', JString (color p)),
                     (js ''dataPoints'',
                      JArray (map (\<lambda>pt. JArray [JNumber (fst pt), JNumber (snd pt)])
                                (dataPoints p)))])
              (players s)))]) \<and>
   Option.bind (JSON_parse (exportToJson s)) readExport =
     Some (elapsedTime s, map (\<lambda>p. (id_p p, name p, color p, dataPoints p)) (players s)) \<and>
   step ExportToJson s = s"
proof -
  have p: "JSON_parse (exportToJson s) = Some (exportData s)"
    by (simp add: exportToJson_def JSON_roundtrip distinctNames_exportData)
  have "Option.bind (JSON_parse (exportToJson s)) readExport =
          Some (elapsedTime s, map (\<lambda>p. (id_p p, name p, color p, dataPoints p)) (players s))"
    by (simp add: p readExport_exportData)
  moreover have "step ExportToJson s = s"
    by simp
  ultimately show ?thesis
    using p by (simp only: exportData_shape)
qed

theorem export_roundtrip_witness:
  "JSON_parse (exportToJson (run (initial 0) scenario)) =
     Some (JObject
       [(js ''elapsedTime'', JNumber 8),
        (js ''players'',
         JArray
           [JObject
              [(js ''id'', JNumber 1), (js ''name'', JString (js ''Alice'')),
               (js ''color'', JString (js ''#ff'')),
               (js ''dataPoints'',
                JArray [JArray [JNumber 0, JNumber 0], JArray [JNumber 5, JNumber 1],
                        JArray [JNumber 8, JNumber 1]])],
            JObject
              [(js ''id'', JNumber 2), (js ''name'', JString (js ''Bob'')),
               (js ''color'', JString (js ''#1000'')),
               (js ''dataPoints'',
                JArray [JArray [JNumber 5, JNumber 0], JArray [JNumber 8, JNumber (- 1)]])]])]) \<and>
   Option.bind
     (JSON_parse (exportToJson (addPlayer (Some [0xD83D, 0xDE00, 0xD800, 0x263A]) 0 255 (initial 0))))
     readExport =
     Some (0, [(1, [0xD83D, 0xDE00, 0xD800, 0x263A], js ''#ff'', [(0, 0)])])"
proof -
  have a: "addPlayer (Some [0xD83D, 0xDE00, 0xD800, 0x263A]) 0 255 (initial 0) =
           \<lparr>players =
              [\<lparr>id_p = 1, name = [0xD83D, 0xDE00, 0xD800, 0x263A], color = js ''#ff'',
                dataPoints = [(0, 0)], yValue = 0\<rparr>],
            firstPlayerTime = Some 0, elapsedTime = 0, nextPlayerId = 2, startTime = 0\<rparr>"
    by (simp add: initial_def addPlayer_def currentElapsedTime_def toString16.simps hexDigit_def)
  from export_roundtrip [of "run (initial 0) scenario", THEN conjunct1]
    export_roundtrip [of "addPlayer (Some [0xD83D, 0xDE00, 0xD800, 0x263A]) 0 255 (initial 0)",
      THEN conjunct2, THEN conjunct1]
  show ?thesis
    by (simp add: run_scenario a)
qed

end
